theory Spec2Isabelle
  imports Main "HOL-Library.Word" "HOL-Library.Char_ord" "HOL-Library.List_Lexorder"
    "HOL-Library.Multiset"
begin

section \<open>Go values shared by the package\<close>

text \<open>
  A run-time panic of the Go program is a value of the model: every function that can
  panic returns \<open>panic + 'a\<close>, with \<open>Inl\<close> for the panic.
\<close>

datatype panic =
    IndexOutOfRange
  | DivideByZero
  | CloseOfClosedChannel
  | SendOnClosedChannel

text \<open>
  \<open>int64\<close> values are integers, and every arithmetic operation of the source on them
  wraps around at 64 bits.
\<close>

type_synonym int64 = int

definition wrap64 :: "int \<Rightarrow> int64" where
  "wrap64 x = (x + 2 ^ 63) mod 2 ^ 64 - 2 ^ 63"

definition add64 :: "int64 \<Rightarrow> int64 \<Rightarrow> int64" where
  "add64 a b = wrap64 (a + b)"

definition sub64 :: "int64 \<Rightarrow> int64 \<Rightarrow> int64" where
  "sub64 a b = wrap64 (a - b)"

definition neg64 :: "int64 \<Rightarrow> int64" where
  "neg64 a = wrap64 (- a)"

definition is_int64 :: "int \<Rightarrow> bool" where
  "is_int64 x = (- (2 ^ 63) \<le> x \<and> x < 2 ^ 63)"

text \<open>Go's \<open>/\<close> on integers truncates towards zero and panics on a zero divisor.\<close>

definition go_div :: "int64 \<Rightarrow> int64 \<Rightarrow> panic + int64" where
  "go_div a b =
     (if b = 0 then Inl DivideByZero
      else Inr (wrap64 (sgn a * sgn b * (\<bar>a\<bar> div \<bar>b\<bar>))))"

text \<open>Indexing a slice: out of range (in particular on a nil slice) panics.\<close>

definition index :: "'a list \<Rightarrow> nat \<Rightarrow> panic + 'a" where
  "index xs i = (if i < length xs then Inr (xs ! i) else Inl IndexOutOfRange)"

section \<open>redirect.go: file names, log lines\<close>

text \<open>
  The functions of Go's standard library that the package calls and whose result depends
  on the platform are parameters of the model: \<open>TrimSpace\<close> is \<open>strings.TrimSpace\<close>, and
  \<open>ParseUnix layout value\<close> is \<open>tm.Unix()\<close> for
  \<open>tm, _ := time.ParseInLocation(layout, value, time.Local)\<close> (the error is dropped by
  the source, so a value that does not parse gives the zero time's seconds).
\<close>

record golib =
  TrimSpace :: "string \<Rightarrow> string"
  ParseUnix :: "string \<Rightarrow> string \<Rightarrow> int64"

definition LOG_FILE_TIME_FORMAT :: string where
  "LOG_FILE_TIME_FORMAT = ''20060102-150405''"

definition LOG_LINE_TIME_FORMAT :: string where
  "LOG_LINE_TIME_FORMAT = ''2006/01/02 15:04:05''"

definition is_digit :: "char \<Rightarrow> bool" where
  "is_digit c = (c \<in> set ''0123456789'')"

text \<open>\<open>[0-9]{8}-[0-9]{6}\<close>, the whole of the string.\<close>

definition file_ts_fmt :: "string \<Rightarrow> bool" where
  "file_ts_fmt s =
     (length s = 15 \<and> list_all is_digit (take 8 s) \<and> take 1 (drop 8 s) = ''-''
      \<and> list_all is_digit (drop 9 s))"

text \<open>
  \<open>logFileNameRe.FindStringSubmatch\<close> for
  \<open>^[0-9]{8}-[0-9]{6}_([0-9]{8}-[0-9]{6})_[0-9]+[.]log$\<close>: the whole match and the
  group, or the nil slice when the name does not match.
\<close>

definition logFileNameRe_FindStringSubmatch :: "string \<Rightarrow> string list" where
  "logFileNameRe_FindStringSubmatch name =
     (let rest = drop 32 name;
          seq = take (length rest - 4) rest
      in if file_ts_fmt (take 15 name) \<and> take 1 (drop 15 name) = ''_''
            \<and> file_ts_fmt (take 15 (drop 16 name)) \<and> take 1 (drop 31 name) = ''_''
            \<and> seq \<noteq> [] \<and> list_all is_digit seq
            \<and> drop (length rest - 4) rest = ''.log''
         then [name, take 15 (drop 16 name)]
         else [])"

definition logFileNameRe_MatchString :: "string \<Rightarrow> bool" where
  "logFileNameRe_MatchString name = (logFileNameRe_FindStringSubmatch name \<noteq> [])"

definition LogFileStartTs :: "golib \<Rightarrow> string \<Rightarrow> panic + int64" where
  "LogFileStartTs lib fileName =
     (case index (logFileNameRe_FindStringSubmatch fileName) 1 of
        Inl e \<Rightarrow> Inl e
      | Inr tmStr \<Rightarrow> Inr (ParseUnix lib LOG_FILE_TIME_FORMAT tmStr))"

text \<open>
  \<open>logLineStartRe.FindStringSubmatch\<close> for
  \<open>^([0-9]{4}/[0-9]{2}/[0-9]{2} [0-9]{2}:[0-9]{2}:[0-9]{2})\<close>: a prefix of 19 bytes.
\<close>

definition line_ts_fmt :: "string \<Rightarrow> bool" where
  "line_ts_fmt s =
     (length s = 19
      \<and> list_all is_digit (take 4 s) \<and> take 1 (drop 4 s) = ''/''
      \<and> list_all is_digit (take 2 (drop 5 s)) \<and> take 1 (drop 7 s) = ''/''
      \<and> list_all is_digit (take 2 (drop 8 s)) \<and> take 1 (drop 10 s) = '' ''
      \<and> list_all is_digit (take 2 (drop 11 s)) \<and> take 1 (drop 13 s) = '':''
      \<and> list_all is_digit (take 2 (drop 14 s)) \<and> take 1 (drop 16 s) = '':''
      \<and> list_all is_digit (drop 17 s))"

definition logLineStartRe_FindStringSubmatch :: "string \<Rightarrow> string list" where
  "logLineStartRe_FindStringSubmatch line =
     (if line_ts_fmt (take 19 line) then [take 19 line, take 19 line] else [])"

definition LogLineTs :: "golib \<Rightarrow> string \<Rightarrow> int64" where
  "LogLineTs lib logLine =
     (let match = logLineStartRe_FindStringSubmatch logLine
      in if length match = 0 then 0
         else ParseUnix lib LOG_LINE_TIME_FORMAT (match ! 1))"

text \<open>
  \<open>colorRe.ReplaceAllString(s, "")\<close> for \<open>\033[[][;0-9]+m\<close>: \<open>color_match\<close> is the
  rest of the string after a match that starts at its first byte.
\<close>

definition is_color_param :: "char \<Rightarrow> bool" where
  "is_color_param c = (c = CHR '';'' \<or> is_digit c)"

fun color_match :: "string \<Rightarrow> string option" where
  "color_match (e # b # r) =
     (if e = CHR 0x1B \<and> b = CHR ''[''
         \<and> takeWhile is_color_param r \<noteq> []
         \<and> take 1 (dropWhile is_color_param r) = ''m''
      then Some (drop 1 (dropWhile is_color_param r))
      else None)"
| "color_match _ = None"

function colorRe_strip :: "string \<Rightarrow> string" where
  "colorRe_strip [] = []"
| "colorRe_strip (c # cs) =
     (case color_match (c # cs) of
        Some r \<Rightarrow> colorRe_strip r
      | None \<Rightarrow> c # colorRe_strip cs)"
  by pat_completeness auto
termination
proof (relation "measure length")
  show "wf (measure length)" by simp
next
  fix c :: char and cs r :: string
  assume m: "color_match (c # cs) = Some r"
  show "(r, c # cs) \<in> measure length"
  proof (cases cs)
    case Nil
    with m show ?thesis by simp
  next
    case (Cons b r')
    with m have "r = drop 1 (dropWhile is_color_param r')"
      by (simp split: if_splits)
    moreover have "length (dropWhile is_color_param r') \<le> length r'"
      by (rule length_dropWhile_le)
    ultimately have "length r \<le> length r'" by simp
    with Cons show ?thesis by simp
  qed
next
  fix c :: char and cs :: string
  show "(cs, c # cs) \<in> measure length" by simp
qed

text \<open>The transformation of a scanned line: trimmed first, then the colours removed.\<close>

definition clean_line :: "golib \<Rightarrow> string \<Rightarrow> string" where
  "clean_line lib line = colorRe_strip (TrimSpace lib line)"

section \<open>redirect.go: retrieval\<close>

text \<open>
  An entry of the log directory as \<open>Readdir\<close> returns it, together with what opening
  and scanning the file of that name gives: \<open>Lines = None\<close> when \<open>os.Open\<close> fails,
  otherwise the lines \<open>bufio.Scanner\<close> yields, in order.
\<close>

record dirent =
  Name :: string
  Size :: int64
  IsRegular :: bool
  ModTime :: int
  Lines :: "string list option"

text \<open>The first loop of \<open>logLinesBefore\<close>.\<close>

fun scan_before :: "golib \<Rightarrow> int64 \<Rightarrow> string list \<Rightarrow> string list" where
  "scan_before lib startTs [] = []"
| "scan_before lib startTs (line # rest) =
     (if startTs > 0 \<and> LogLineTs lib line \<ge> startTs then []
      else clean_line lib line # scan_before lib startTs rest)"

text \<open>
  The second loop of \<open>logLinesBefore\<close>, \<open>for i := len(lines) - 1; i >= 0; i--\<close>: the
  argument is \<open>i + 1\<close>.
\<close>

fun budget_tail :: "string list \<Rightarrow> nat \<Rightarrow> int64 \<Rightarrow> string list \<times> int64" where
  "budget_tail lines 0 numBytes = (lines, numBytes)"
| "budget_tail lines (Suc i) numBytes =
     (let nb = sub64 numBytes (int (length (lines ! i)))
      in if nb \<le> 0 then (drop i lines, nb) else budget_tail lines i nb)"

text \<open>The result is the returned slice and the new value of \<open>*numBytes\<close>.\<close>

definition logLinesBefore ::
  "golib \<Rightarrow> dirent \<Rightarrow> int64 \<Rightarrow> int64 \<Rightarrow> string list \<times> int64" where
  "logLinesBefore lib fi startTs numBytes =
     (case Lines fi of
        None \<Rightarrow> ([], numBytes)
      | Some content \<Rightarrow>
          (let lines = scan_before lib startTs content
           in budget_tail lines (length lines) numBytes))"

fun scan_after ::
  "golib \<Rightarrow> int64 \<Rightarrow> bool \<Rightarrow> string list \<Rightarrow> int64 \<Rightarrow> string list \<Rightarrow> string list \<times> int64" where
  "scan_after lib startTs findFirstLine [] numBytes lines = (lines, numBytes)"
| "scan_after lib startTs findFirstLine (raw # rest) numBytes lines =
     (if findFirstLine \<and> LogLineTs lib raw < startTs
      then scan_after lib startTs findFirstLine rest numBytes lines
      else (let line = colorRe_strip (TrimSpace lib raw);
                lines' = lines @ [line];
                nb = sub64 numBytes (int (length line))
            in if nb \<le> 0 then (lines', nb)
               else scan_after lib startTs False rest nb lines'))"

definition logLinesAfter ::
  "golib \<Rightarrow> dirent \<Rightarrow> int64 \<Rightarrow> int64 \<Rightarrow> panic + (string list \<times> int64)" where
  "logLinesAfter lib fi startTs numBytes =
     (case Lines fi of
        None \<Rightarrow> Inr ([], numBytes)
      | Some content \<Rightarrow>
          (case LogFileStartTs lib (Name fi) of
             Inl e \<Rightarrow> Inl e
           | Inr ts \<Rightarrow> Inr (scan_after lib startTs (ts < startTs) content numBytes [])))"

text \<open>\<open>sort.Search\<close>, the binary search of Go's library, with a predicate that can panic.\<close>

function search_loop :: "(nat \<Rightarrow> panic + bool) \<Rightarrow> nat \<Rightarrow> nat \<Rightarrow> panic + nat" where
  "search_loop f i j =
     (if i < j
      then (let h = (i + j) div 2
            in case f h of
                 Inl e \<Rightarrow> Inl e
               | Inr b \<Rightarrow> if \<not> b then search_loop f (h + 1) j else search_loop f i h)
      else Inr i)"
  by pat_completeness auto
termination
  by (relation "measure (\<lambda>(f, i, j). j - i)") auto

definition sort_Search :: "nat \<Rightarrow> (nat \<Rightarrow> panic + bool) \<Rightarrow> panic + nat" where
  "sort_Search n f = search_loop f 0 n"

text \<open>The predicates of the two searches: \<open>LogFileStartTs(fis[i].Name())\<close> compared.\<close>

definition start_ts_at ::
  "golib \<Rightarrow> dirent list \<Rightarrow> (int64 \<Rightarrow> bool) \<Rightarrow> nat \<Rightarrow> panic + bool" where
  "start_ts_at lib fis p i =
     (case index fis i of
        Inl e \<Rightarrow> Inl e
      | Inr fi \<Rightarrow>
          (case LogFileStartTs lib (Name fi) of
             Inl e \<Rightarrow> Inl e
           | Inr ts \<Rightarrow> Inr (p ts)))"

text \<open>The loop of the branch \<open>startTs == 0\<close>, over the files still to visit.\<close>

fun recent_loop :: "golib \<Rightarrow> dirent list \<Rightarrow> int64 \<Rightarrow> string list \<Rightarrow> string list" where
  "recent_loop lib [] numBytes lines = lines"
| "recent_loop lib (fi # rest) numBytes lines =
     (case logLinesBefore lib fi 0 numBytes of
        (ls, nb) \<Rightarrow>
          (let lines' = ls @ lines
           in if nb \<le> 0 then lines' else recent_loop lib rest nb lines'))"

text \<open>The loop \<open>for i := start; i >= 0; i--\<close>: the argument is \<open>i + 1\<close>.\<close>

fun after_loop ::
  "golib \<Rightarrow> dirent list \<Rightarrow> nat \<Rightarrow> int64 \<Rightarrow> int64 \<Rightarrow> string list \<Rightarrow> panic + string list" where
  "after_loop lib fis 0 startTs numBytes lines = Inr lines"
| "after_loop lib fis (Suc i) startTs numBytes lines =
     (case index fis i of
        Inl e \<Rightarrow> Inl e
      | Inr fi \<Rightarrow>
          (case logLinesAfter lib fi startTs numBytes of
             Inl e \<Rightarrow> Inl e
           | Inr (ls, nb) \<Rightarrow>
               (let lines' = lines @ ls
                in if nb \<le> 0 then Inr lines'
                   else after_loop lib fis i startTs nb lines')))"

text \<open>The loop \<open>for i := start; i < len(fis); i++\<close>, which sets \<open>startTs = 0\<close>.\<close>

function before_loop ::
  "golib \<Rightarrow> dirent list \<Rightarrow> nat \<Rightarrow> int64 \<Rightarrow> int64 \<Rightarrow> string list \<Rightarrow> string list" where
  "before_loop lib fis i startTs numBytes lines =
     (if i < length fis
      then (case logLinesBefore lib (fis ! i) startTs numBytes of
              (ls, nb) \<Rightarrow>
                (let lines' = ls @ lines
                 in if nb \<le> 0 then lines'
                    else before_loop lib fis (i + 1) 0 nb lines'))
      else lines)"
  by pat_completeness auto
termination
  by (relation "measure (\<lambda>(lib, fis, i, startTs, numBytes, lines). length fis - i)") auto

text \<open>
  \<open>(*LogRedirector).LogLines\<close>. The argument \<open>dir\<close> is what \<open>os.Open(l.logDir)\<close> and
  \<open>Readdir(0)\<close> give: \<open>None\<close> when either fails. The names of a directory are distinct,
  so the order after \<open>sort.Slice\<close> (latest name first) is determined.
\<close>

definition log_files :: "dirent list \<Rightarrow> dirent list" where
  "log_files fis = filter (\<lambda>fi. IsRegular fi \<and> logFileNameRe_MatchString (Name fi)) fis"

definition latest_first :: "dirent list \<Rightarrow> dirent list" where
  "latest_first fis = rev (sort_key Name fis)"

definition LogRedirector_LogLines ::
  "golib \<Rightarrow> dirent list option \<Rightarrow> int64 \<Rightarrow> int64 \<Rightarrow> panic + string list" where
  "LogRedirector_LogLines lib dir startTs numBytes =
     (case dir of
        None \<Rightarrow> Inr []
      | Some entries \<Rightarrow>
          (if length (log_files entries) = 0 then Inr []
           else
             (let fis = latest_first (log_files entries)
              in if startTs = 0 then Inr (recent_loop lib fis numBytes [])
                 else if startTs > 0 then
                   (case sort_Search (length fis) (start_ts_at lib fis (\<lambda>ts. ts \<le> startTs)) of
                      Inl e \<Rightarrow> Inl e
                    | Inr start \<Rightarrow>
                        after_loop lib fis
                          (Suc (if start = length fis then length fis - 1 else start))
                          startTs numBytes [])
                 else
                   (let startTs' = neg64 startTs
                    in case sort_Search (length fis)
                              (start_ts_at lib fis (\<lambda>ts. ts < startTs')) of
                         Inl e \<Rightarrow> Inl e
                       | Inr start \<Rightarrow> Inr (before_loop lib fis start startTs' numBytes [])))))"

text \<open>
  The package function \<open>LogLines\<close>: the global \<open>lr\<close> is nil (\<open>None\<close>) or a redirector,
  here the listing of its directory.
\<close>

definition LogLines ::
  "golib \<Rightarrow> dirent list option option \<Rightarrow> int64 \<Rightarrow> int64 \<Rightarrow> panic + string list" where
  "LogLines lib lr startTs numBytes =
     (case lr of
        None \<Rightarrow> Inr []
      | Some dir \<Rightarrow> LogRedirector_LogLines lib dir startTs numBytes)"

subsection \<open>The query before a time, as the specification words it\<close>







declare before_loop.simps [simp del] search_loop.simps [simp del]

section \<open>Channels\<close>

text \<open>
  A buffered channel is its buffer, its capacity and whether it has been closed. An
  operation on a channel returns, blocks until another goroutine acts on the channel, or
  panics. Both channels of the package are buffered (10000 entries, and 100 chunks by
  default); a receiver that waits has found the buffer empty, so a send goes through the
  buffer.
\<close>

record 'a chan =
  chan_buf :: "'a list"
  chan_cap :: nat
  chan_closed :: bool

datatype 'a outcome = Returns 'a | Blocks | Panics panic

definition make_chan :: "nat \<Rightarrow> 'a chan" where
  "make_chan n = \<lparr>chan_buf = [], chan_cap = n, chan_closed = False\<rparr>"

text \<open>A send can proceed when the buffer has room, and on a closed channel, where it panics.\<close>

definition send_ready :: "'a chan \<Rightarrow> bool" where
  "send_ready ch = (chan_closed ch \<or> length (chan_buf ch) < chan_cap ch)"

definition send :: "'a chan \<Rightarrow> 'a \<Rightarrow> panic + 'a chan" where
  "send ch v =
     (if chan_closed ch then Inl SendOnClosedChannel
      else Inr (ch\<lparr>chan_buf := chan_buf ch @ [v]\<rparr>))"

text \<open>
  \<open>select\<close> with the one case \<open>ch <- v\<close>, with or without a \<open>default\<close> case: without
  one, the statement waits until the send can proceed.
\<close>

datatype 'a selected = SendCase "'a chan" | DefaultCase

definition select_send :: "'a chan \<Rightarrow> 'a \<Rightarrow> bool \<Rightarrow> 'a selected outcome" where
  "select_send ch v has_default =
     (if send_ready ch
      then (case send ch v of Inl p \<Rightarrow> Panics p | Inr ch' \<Rightarrow> Returns (SendCase ch'))
      else if has_default then Returns DefaultCase
      else Blocks)"

definition close_chan :: "'a chan \<Rightarrow> panic + 'a chan" where
  "close_chan ch =
     (if chan_closed ch then Inl CloseOfClosedChannel else Inr (ch\<lparr>chan_closed := True\<rparr>))"

text \<open>The receive of \<open>for v := range ch\<close>: a value, or the end of the loop.\<close>

datatype 'a received = Value 'a "'a chan" | EndOfStream

definition recv :: "'a chan \<Rightarrow> 'a received outcome" where
  "recv ch =
     (case chan_buf ch of
        v # rest \<Rightarrow> Returns (Value v (ch\<lparr>chan_buf := rest\<rparr>))
      | [] \<Rightarrow> if chan_closed ch then Returns EndOfStream else Blocks)"

section \<open>logging.go: the pipeline\<close>

record logEntry =
  le_file :: string
  le_text :: string
  le_line :: int
  le_level :: int

text \<open>
  What \<open>processLogs\<close> hands to package \<open>log\<close>, call by call: the warning with the number
  of dropped lines, the notice with the number of repeats, and an entry (its prefix,
  colours and text are functions of the entry).
\<close>

datatype logged = DroppedWarning nat | RepeatNotice nat | Printed logEntry

text \<open>
  The globals of logging.go and the locals of the goroutine \<open>processLogs\<close>: \<open>held\<close> is
  the entry \<open>le\<close> the loop has received and not yet handled, \<open>wg_done\<close> says that the
  goroutine has returned (\<open>wg.Done()\<close>). \<open>droppedLogLines\<close> is a \<open>uint32\<close>; the repeat
  count is a Go \<open>int\<close> that is only incremented and reset to zero, here a natural
  number (on 64 bits it cannot wrap before \<open>2 ^ 63\<close> repeats in a row).
\<close>

record logging =
  logCh :: "logEntry chan"
  droppedLogLines :: "32 word"
  lastLogLine :: string
  lastLogLineRepeatCount :: nat
  held :: "logEntry option"
  wg_done :: bool
  log_output :: "logged list"

text \<open>The state after \<open>init()\<close>.\<close>

definition init_logging :: logging where
  "init_logging =
     \<lparr>logCh = make_chan 10000, droppedLogLines = 0, lastLogLine = [],
      lastLogLineRepeatCount = 0, held = None, wg_done = False, log_output = []\<rparr>"

definition logText :: "logging \<Rightarrow> logEntry \<Rightarrow> logging outcome" where
  "logText s le =
     (case select_send (logCh s) le True of
        Returns (SendCase ch) \<Rightarrow> Returns (s\<lparr>logCh := ch\<rparr>)
      | Returns DefaultCase \<Rightarrow> Returns (s\<lparr>droppedLogLines := droppedLogLines s + 1\<rparr>)
      | Blocks \<Rightarrow> Blocks
      | Panics p \<Rightarrow> Panics p)"

text \<open>The body of the loop of \<open>processLogs\<close>, for the entry \<open>le\<close>.\<close>

definition swap_dropped :: "logging \<Rightarrow> logging" where
  "swap_dropped s =
     (let dropped = droppedLogLines s;
          s' = s\<lparr>droppedLogLines := 0\<rparr>
      in if dropped > 0
         then s'\<lparr>log_output := log_output s' @ [DroppedWarning (unat dropped)]\<rparr>
         else s')"

definition dedup :: "logging \<Rightarrow> logEntry \<Rightarrow> logging" where
  "dedup s le =
     (if lastLogLine s = le_text le
      then s\<lparr>lastLogLineRepeatCount := lastLogLineRepeatCount s + 1\<rparr>
      else (let s' = (if lastLogLineRepeatCount s > 0
                      then s\<lparr>log_output := log_output s @ [RepeatNotice (lastLogLineRepeatCount s)],
                             lastLogLineRepeatCount := 0\<rparr>
                      else s)
            in s'\<lparr>lastLogLine := le_text le, log_output := log_output s' @ [Printed le]\<rparr>))"

definition loop_body :: "logging \<Rightarrow> logEntry \<Rightarrow> logging" where
  "loop_body s le = dedup (swap_dropped s) le"

text \<open>
  One step of the goroutine: it receives an entry, or handles the entry it holds, or
  leaves the loop on the closed and empty channel and returns.
\<close>

definition consumer_step :: "logging \<Rightarrow> logging outcome" where
  "consumer_step s =
     (case held s of
        Some le \<Rightarrow> Returns (loop_body (s\<lparr>held := None\<rparr>) le)
      | None \<Rightarrow>
          (case recv (logCh s) of
             Returns (Value le ch) \<Rightarrow> Returns (s\<lparr>logCh := ch, held := Some le\<rparr>)
           | Returns EndOfStream \<Rightarrow> Returns (s\<lparr>wg_done := True\<rparr>)
           | Blocks \<Rightarrow> Blocks
           | Panics p \<Rightarrow> Panics p))"

definition consumer_measure :: "logging \<Rightarrow> nat" where
  "consumer_measure s =
     (if wg_done s then 0
      else 1 + 2 * length (chan_buf (logCh s)) + (case held s of None \<Rightarrow> 0 | Some le \<Rightarrow> 1))"

text \<open>
  \<open>processLogs\<close> running with no other goroutine in between, until it returns or blocks
  on the empty channel.
\<close>

function processLogs :: "logging \<Rightarrow> logging outcome" where
  "processLogs s =
     (if wg_done s then Returns s
      else (case consumer_step s of
              Returns s' \<Rightarrow> processLogs s'
            | Blocks \<Rightarrow> Blocks
            | Panics p \<Rightarrow> Panics p))"
  by pat_completeness auto
termination
proof (relation "measure consumer_measure")
  show "wf (measure consumer_measure)" by simp
next
  fix s s' :: logging
  assume nd: "\<not> wg_done s" and st: "consumer_step s = Returns s'"
  have body: "\<And>t le. logCh (loop_body t le) = logCh t \<and> held (loop_body t le) = held t
      \<and> wg_done (loop_body t le) = wg_done t"
    by (simp add: loop_body_def dedup_def swap_dropped_def Let_def)
  show "(s', s) \<in> measure consumer_measure"
  proof (cases "held s")
    case (Some le)
    with st have "s' = loop_body (s\<lparr>held := None\<rparr>) le"
      by (simp add: consumer_step_def)
    with nd Some body show ?thesis
      by (simp add: consumer_measure_def)
  next
    case None
    show ?thesis
    proof (cases "chan_buf (logCh s)")
      case Nil
      with None st nd show ?thesis
        by (auto simp: consumer_step_def recv_def consumer_measure_def split: if_splits)
    next
      case (Cons le rest)
      with None st nd show ?thesis
        by (auto simp: consumer_step_def recv_def consumer_measure_def)
    qed
  qed
qed

declare processLogs.simps [simp del]

text \<open>The loop body applied to the entries of a buffer, one after the other.\<close>

definition consume :: "logging \<Rightarrow> logEntry list \<Rightarrow> logging" where
  "consume s les = foldl loop_body s les"

subsection \<open>Producers and the consumer interleaved\<close>

text \<open>
  The atomic steps of an execution: a call of \<open>logText\<close> by some goroutine, a step of
  the consumer, and the \<open>close(logCh)\<close> of \<open>Close\<close>. A consumer that has returned takes
  no step. \<open>run\<close> is the state after a sequence of steps.
\<close>

datatype event = Submit logEntry | Consume | CloseLogCh

definition step :: "logging \<Rightarrow> event \<Rightarrow> logging outcome" where
  "step s ev =
     (case ev of
        Submit le \<Rightarrow> logText s le
      | Consume \<Rightarrow> if wg_done s then Blocks else consumer_step s
      | CloseLogCh \<Rightarrow>
          (case close_chan (logCh s) of
             Inl e \<Rightarrow> Panics e
           | Inr ch \<Rightarrow> Returns (s\<lparr>logCh := ch\<rparr>)))"

fun run :: "logging \<Rightarrow> event list \<Rightarrow> logging outcome" where
  "run s [] = Returns s"
| "run s (ev # evs) =
     (case step s ev of
        Returns s' \<Rightarrow> run s' evs
      | Blocks \<Rightarrow> Blocks
      | Panics e \<Rightarrow> Panics e)"

text \<open>A step drops a record when it is a \<open>logText\<close> that takes the \<open>default\<close> case.\<close>

definition is_drop :: "logging \<Rightarrow> event \<Rightarrow> bool" where
  "is_drop s ev = (case ev of Submit le \<Rightarrow> \<not> send_ready (logCh s) | _ \<Rightarrow> False)"

fun dropped_total :: "logging \<Rightarrow> event list \<Rightarrow> nat" where
  "dropped_total s [] = 0"
| "dropped_total s (ev # evs) =
     (case step s ev of
        Returns s' \<Rightarrow> (if is_drop s ev then 1 else 0) + dropped_total s' evs
      | _ \<Rightarrow> 0)"

text \<open>Whether some drop of the execution finds the counter at its greatest value.\<close>

fun wraps :: "logging \<Rightarrow> event list \<Rightarrow> bool" where
  "wraps s [] = False"
| "wraps s (ev # evs) =
     (case step s ev of
        Returns s' \<Rightarrow> (is_drop s ev \<and> droppedLogLines s = - 1) \<or> wraps s' evs
      | _ \<Rightarrow> False)"

text \<open>The counts of the warnings printed, and their sum.\<close>

fun warnings :: "logged list \<Rightarrow> nat list" where
  "warnings [] = []"
| "warnings (DroppedWarning n # out) = n # warnings out"
| "warnings (x # out) = warnings out"

definition reported :: "logged list \<Rightarrow> nat" where
  "reported out = sum_list (warnings out)"

text \<open>
  After an execution from the initial state: the number of records dropped, the sum of
  the counts reported, and the counter.
\<close>

definition final_counts :: "event list \<Rightarrow> (nat \<times> nat \<times> nat) option" where
  "final_counts evs =
     (case run init_logging evs of
        Returns s \<Rightarrow>
          Some (dropped_total init_logging evs, reported (log_output s), unat (droppedLogLines s))
      | _ \<Rightarrow> None)"

text \<open>
  While the counter is not zero, the consumer has an entry to handle: every drop is
  reported in the end.
\<close>

definition pending_ok :: "logging \<Rightarrow> bool" where
  "pending_ok s =
     (0 < chan_cap (logCh s)
      \<and> (droppedLogLines s \<noteq> 0 \<longrightarrow> chan_buf (logCh s) \<noteq> [] \<or> held s \<noteq> None))"

section \<open>redirect.go: the writer\<close>

text \<open>
  What the writer does to the world, in order: the chunks and messages it hands to
  \<open>writeToCStdout\<close>, what it prints to the original standard streams, and its calls of
  the operating system.
\<close>

datatype msg =
    Data string
  | Redirecting string
  | TryingToRecycle string int64 int64
  | Deleting string int64 int64

datatype stderr_msg = Err | FailedToWriteLog int nat | FailedToRedirect

datatype effect =
    WriteToCStdout msg
  | Stdout msg
  | Stderr stderr_msg
  | Stat string
  | RedirectStdoutStderrTo string
  | UpdateLatest string
  | Readdir string
  | Remove string

text \<open>
  The flags, and the answers of the platform to the calls of the writer:
  \<open>write_to_log\<close> is the result of \<open>C.write_to_log\<close> as a Go \<open>int\<close>, \<open>os_Stat\<close> the size
  \<open>os.Stat\<close> reports or \<open>None\<close> for an error, \<open>os_Readdir\<close> the listing of a directory
  or \<open>None\<close> when \<open>os.Open\<close> or \<open>Readdir\<close> fails, \<open>sort_Slice_ModTime\<close> what
  \<open>sort.Slice\<close> makes of a listing with the comparison of modification times (the sort
  is not stable, so its result is not a function of the comparison alone), \<open>os_Remove\<close>
  whether \<open>os.Remove\<close> succeeds, \<open>redirect_stdout_stderr_to\<close> the result of the C
  function of that name, and \<open>logFileBase n\<close> the name \<open>redirectToNewFile\<close> formats for
  the \<open>n\<close>-th file.
\<close>

record osenv =
  alsoLogToStdoutFlag :: bool
  maxLogFileSizeFlag :: int64
  maxLogDirSizeFlag :: int64
  write_to_log :: "msg \<Rightarrow> int"
  os_Stat :: "string \<Rightarrow> int64 option"
  os_Readdir :: "string \<Rightarrow> dirent list option"
  sort_Slice_ModTime :: "dirent list \<Rightarrow> dirent list"
  os_Remove :: "string \<Rightarrow> bool"
  redirect_stdout_stderr_to :: "string \<Rightarrow> int"
  logFileBase :: "int \<Rightarrow> string"

text \<open>
  The redirector: the fields of the struct, the local \<open>data\<close> of \<open>writeLog\<close> (\<open>None\<close>
  for nil), whether \<open>writeLog\<close> has returned, and the effects so far.
\<close>

record LogRedirector =
  logDir :: string
  logFileName :: string
  bytesWritten :: int64
  numLogFiles :: int
  lr_logCh :: "string chan"
  data :: "string option"
  lr_wg_done :: bool
  effects :: "effect list"

text \<open>\<open>filepath.Join\<close> of a directory and the name of one of its entries.\<close>

definition Join :: "string \<Rightarrow> string \<Rightarrow> string" where
  "Join dir name = dir @ ''/'' @ name"

definition do_effects :: "effect list \<Rightarrow> LogRedirector \<Rightarrow> LogRedirector" where
  "do_effects es l = l\<lparr>effects := effects l @ es\<rparr>"

datatype error = logChFullErr

text \<open>
  \<open>Write\<close>: the \<open>select\<close> has no \<open>default\<close> case, and the statement after it returns
  \<open>logChFullErr\<close>.
\<close>

definition Write :: "LogRedirector \<Rightarrow> string \<Rightarrow> (LogRedirector \<times> int \<times> error option) outcome" where
  "Write l p =
     (let logData = p
      in case select_send (lr_logCh l) logData False of
           Returns (SendCase ch) \<Rightarrow> Returns (l\<lparr>lr_logCh := ch\<rparr>, int (length logData), None)
         | Returns DefaultCase \<Rightarrow> Returns (l, 0, Some logChFullErr)
         | Blocks \<Rightarrow> Blocks
         | Panics e \<Rightarrow> Panics e)"

definition writeToCStdout :: "osenv \<Rightarrow> msg \<Rightarrow> LogRedirector \<Rightarrow> LogRedirector" where
  "writeToCStdout env m l = do_effects [WriteToCStdout m] l"

definition redirectToNewFile :: "osenv \<Rightarrow> LogRedirector \<Rightarrow> LogRedirector" where
  "redirectToNewFile env l =
     (let l1 = l\<lparr>numLogFiles := numLogFiles l + 1\<rparr>;
          base = logFileBase env (numLogFiles l1);
          l2 = (if logFileName l1 \<noteq> [] then writeToCStdout env (Redirecting base) l1 else l1);
          name = Join (logDir l2) base;
          l3 = do_effects [RedirectStdoutStderrTo name] l2
      in if redirect_stdout_stderr_to env name \<noteq> 0
         then do_effects [Stderr FailedToRedirect] l3
         else (let l4 = do_effects [UpdateLatest base] (l3\<lparr>logFileName := name, bytesWritten := 0\<rparr>)
               in if alsoLogToStdoutFlag env then do_effects [Stdout (Redirecting base)] l4
                  else l4))"

text \<open>
  The deletion loop of \<open>recycleOldLogFiles\<close>, over the sorted entries still to visit;
  the result is the effects of the loop.
\<close>

fun recycle_loop :: "osenv \<Rightarrow> LogRedirector \<Rightarrow> dirent list \<Rightarrow> int64 \<Rightarrow> effect list" where
  "recycle_loop env l [] dirSize = []"
| "recycle_loop env l (fi # rest) dirSize =
     (if \<not> IsRegular fi then recycle_loop env l rest dirSize
      else (let file = Join (logDir l) (Name fi)
            in if file = logFileName l then recycle_loop env l rest dirSize
               else [WriteToCStdout (Deleting file dirSize (Size fi)), Remove file]
                    @ (if \<not> os_Remove env file
                       then Stderr Err # recycle_loop env l rest dirSize
                       else (let dirSize' = sub64 dirSize (Size fi)
                             in if dirSize' \<le> maxLogDirSizeFlag env then []
                                else recycle_loop env l rest dirSize'))))"

definition dir_size :: "dirent list \<Rightarrow> int64" where
  "dir_size fis = foldl (\<lambda>dirSize fi. add64 dirSize (Size fi)) 0 fis"

definition recycleOldLogFiles :: "osenv \<Rightarrow> LogRedirector \<Rightarrow> LogRedirector" where
  "recycleOldLogFiles env l =
     (let l1 = do_effects [Readdir (logDir l)] l
      in case os_Readdir env (logDir l) of
           None \<Rightarrow> do_effects [Stderr Err] l1
         | Some fis \<Rightarrow>
             (let dirSize = dir_size fis
              in if dirSize > maxLogDirSizeFlag env
                 then do_effects
                        (WriteToCStdout (TryingToRecycle (logDir l) dirSize (maxLogDirSizeFlag env))
                         # recycle_loop env l (sort_Slice_ModTime env fis) dirSize)
                        l1
                 else l1))"

text \<open>
  The part of the loop body of \<open>writeLog\<close> after a write of all of \<open>data\<close>: the check
  every \<open>block\<close> bytes.
\<close>

definition check_rotation :: "osenv \<Rightarrow> int \<Rightarrow> LogRedirector \<Rightarrow> panic + LogRedirector" where
  "check_rotation env n l =
     (case go_div (maxLogFileSizeFlag env) 10 of
        Inl e \<Rightarrow> Inl e
      | Inr block \<Rightarrow>
          (case go_div (bytesWritten l) block of
             Inl e \<Rightarrow> Inl e
           | Inr old \<Rightarrow>
               (let l1 = l\<lparr>bytesWritten := add64 (bytesWritten l) n\<rparr>
                in case go_div (bytesWritten l1) block of
                     Inl e \<Rightarrow> Inl e
                   | Inr new \<Rightarrow>
                       if new \<noteq> old
                       then (let l2 = do_effects [Stat (logFileName l1)] l1
                             in case os_Stat env (logFileName l1) of
                                  None \<Rightarrow> Inr (do_effects [Stderr Err] l2)
                                | Some sz \<Rightarrow>
                                    if sz \<ge> maxLogFileSizeFlag env
                                    then Inr (recycleOldLogFiles env (redirectToNewFile env l2))
                                    else Inr l2)
                       else Inr l1)))"

text \<open>
  The body of the loop of \<open>writeLog\<close> for the chunk \<open>logData\<close>, received from the
  channel already.
\<close>

definition writeLog_body :: "osenv \<Rightarrow> LogRedirector \<Rightarrow> string \<Rightarrow> panic + LogRedirector" where
  "writeLog_body env l logData =
     (let l1 = (if alsoLogToStdoutFlag env then do_effects [Stdout (Data logData)] l else l)
      in if logFileName l1 = [] then Inr l1
         else (let d = (case data l1 of None \<Rightarrow> logData | Some d0 \<Rightarrow> d0 @ logData);
                   l2 = l1\<lparr>data := Some d\<rparr>
               in if length (chan_buf (lr_logCh l2)) > 0 then Inr l2
                  else (let n = write_to_log env (Data d);
                            l3 = writeToCStdout env (Data d) l2
                        in if n \<noteq> int (length d)
                           then Inr ((do_effects [Stderr (FailedToWriteLog n (length d))] l3)
                                       \<lparr>data := None\<rparr>)
                           else (case check_rotation env n l3 of
                                   Inl e \<Rightarrow> Inl e
                                 | Inr l4 \<Rightarrow> Inr (l4\<lparr>data := None\<rparr>)))))"

text \<open>\<open>writeLog\<close> running alone, until it returns or blocks on the empty channel.\<close>

function writeLog :: "osenv \<Rightarrow> LogRedirector \<Rightarrow> LogRedirector outcome" where
  "writeLog env l =
     (case recv (lr_logCh l) of
        Returns (Value logData ch) \<Rightarrow>
          (case writeLog_body env (l\<lparr>lr_logCh := ch\<rparr>) logData of
             Inl e \<Rightarrow> Panics e
           | Inr l' \<Rightarrow> writeLog env l')
      | Returns EndOfStream \<Rightarrow> Returns (l\<lparr>lr_wg_done := True\<rparr>)
      | Blocks \<Rightarrow> Blocks
      | Panics e \<Rightarrow> Panics e)"
  by pat_completeness auto
termination
proof (relation "measure (\<lambda>(env, l). length (chan_buf (lr_logCh l)))")
  show "wf (measure (\<lambda>(env, l). length (chan_buf (lr_logCh l))))" by simp
next
  fix env :: osenv and l l' :: LogRedirector and logData ch r
  assume r: "recv (lr_logCh l) = Returns r" "r = Value logData ch"
    and b: "writeLog_body env (l\<lparr>lr_logCh := ch\<rparr>) logData = Inr l'"
  have eff: "\<And>es t. lr_logCh (do_effects es t) = lr_logCh t"
    by (simp add: do_effects_def)
  have red: "\<And>t. lr_logCh (redirectToNewFile env t) = lr_logCh t"
    by (simp add: redirectToNewFile_def writeToCStdout_def Let_def eff)
  have rec: "\<And>t. lr_logCh (recycleOldLogFiles env t) = lr_logCh t"
    by (simp add: recycleOldLogFiles_def Let_def eff split: option.splits)
  have chk: "\<And>n t t'. check_rotation env n t = Inr t' \<Longrightarrow> lr_logCh t' = lr_logCh t"
    by (auto simp: check_rotation_def Let_def eff red rec split: sum.splits option.splits if_splits)
  from b have "lr_logCh l' = ch"
    by (auto simp: writeLog_body_def Let_def eff writeToCStdout_def
        split: if_splits sum.splits dest!: chk)
  moreover from r have "length (chan_buf ch) < length (chan_buf (lr_logCh l))"
    by (auto simp: recv_def split: list.splits if_splits)
  ultimately show "((env, l'), (env, l)) \<in> measure (\<lambda>(env, l). length (chan_buf (lr_logCh l)))"
    by simp
qed

text \<open>
  \<open>NewLogRedirector\<close> once \<open>os.MkdirAll\<close> has succeeded, with the value of the flag
  \<open>log-chan-size\<close>; the goroutine \<open>writeLog\<close> it starts has not run yet.
\<close>

definition NewLogRedirector :: "osenv \<Rightarrow> nat \<Rightarrow> string \<Rightarrow> LogRedirector" where
  "NewLogRedirector env logChanSize dir =
     redirectToNewFile env
       \<lparr>logDir = dir, logFileName = [], bytesWritten = 0, numLogFiles = 0,
        lr_logCh = make_chan logChanSize, data = None, lr_wg_done = False, effects = []\<rparr>"

text \<open>\<open>(*LogRedirector).Close\<close>: \<open>wg.Wait()\<close> returns when \<open>writeLog\<close> has returned.\<close>

definition LogRedirector_Close :: "osenv \<Rightarrow> LogRedirector \<Rightarrow> LogRedirector outcome" where
  "LogRedirector_Close env l =
     (case close_chan (lr_logCh l) of
        Inl e \<Rightarrow> Panics e
      | Inr ch \<Rightarrow> (if lr_wg_done l then Returns (l\<lparr>lr_logCh := ch\<rparr>)
                   else writeLog env (l\<lparr>lr_logCh := ch\<rparr>)))"

subsection \<open>Reading the effects\<close>

text \<open>
  The effects of a step of the writer are those it added. A rotation is a call of
  \<open>C.redirect_stdout_stderr_to\<close> (which closes the current target and opens the new
  file), a check is a call of \<open>os.Stat\<close>, and the recycler starts by reading the
  directory.
\<close>

definition new_effects :: "LogRedirector \<Rightarrow> LogRedirector \<Rightarrow> effect list" where
  "new_effects l l' = drop (length (effects l)) (effects l')"

fun is_Stat :: "effect \<Rightarrow> bool" where
  "is_Stat (Stat f) = True"
| "is_Stat _ = False"

fun is_Redirect :: "effect \<Rightarrow> bool" where
  "is_Redirect (RedirectStdoutStderrTo f) = True"
| "is_Redirect _ = False"

fun is_Readdir :: "effect \<Rightarrow> bool" where
  "is_Readdir (Readdir d) = True"
| "is_Readdir _ = False"

text \<open>An effect that is none of these three.\<close>

definition quiet :: "effect \<Rightarrow> bool" where
  "quiet e = (\<not> is_Stat e \<and> \<not> is_Redirect e \<and> \<not> is_Readdir e)"

definition stat_checked :: "effect list \<Rightarrow> bool" where
  "stat_checked es = list_ex is_Stat es"

definition rotated :: "effect list \<Rightarrow> bool" where
  "rotated es = list_ex is_Redirect es"

text \<open>The files the recycler tries to remove, in order.\<close>

fun removes :: "effect list \<Rightarrow> string list" where
  "removes [] = []"
| "removes (Remove f # es) = f # removes es"
| "removes (e # es) = removes es"

subsection \<open>The recycler, as the specification words it\<close>




section \<open>The package as a whole: shutdown\<close>

text \<open>The globals of the two files: the pipeline, and \<open>lr\<close> (\<open>None\<close> for nil).\<close>

record package =
  pipeline :: logging
  lr :: "LogRedirector option"

definition CloseRedirector :: "osenv \<Rightarrow> package \<Rightarrow> package outcome" where
  "CloseRedirector env g =
     (case lr g of
        None \<Rightarrow> Returns g
      | Some l \<Rightarrow>
          (case LogRedirector_Close env l of
             Returns l' \<Rightarrow> Returns (g\<lparr>lr := None\<rparr>)
           | Blocks \<Rightarrow> Blocks
           | Panics e \<Rightarrow> Panics e))"

text \<open>\<open>Close\<close> of logging.go: \<open>wg.Wait()\<close> returns when \<open>processLogs\<close> has returned.\<close>

definition Close :: "osenv \<Rightarrow> package \<Rightarrow> package outcome" where
  "Close env g =
     (case close_chan (logCh (pipeline g)) of
        Inl e \<Rightarrow> Panics e
      | Inr ch \<Rightarrow>
          (case processLogs ((pipeline g)\<lparr>logCh := ch\<rparr>) of
             Returns s \<Rightarrow> CloseRedirector env (g\<lparr>pipeline := s\<rparr>)
           | Blocks \<Rightarrow> Blocks
           | Panics e \<Rightarrow> Panics e))"

section \<open>A concrete library, for evaluation\<close>

text \<open>
  \<open>strings.TrimSpace\<close> on ASCII text, and the time formats read in a zone with a fixed
  offset (seconds east of UTC). A value out of range gives the zero time, as the dropped
  error of \<open>time.ParseInLocation\<close> does.
\<close>

definition is_space :: "char \<Rightarrow> bool" where
  "is_space c = (c \<in> set [CHR 0x09, CHR 0x0A, CHR 0x0B, CHR 0x0C, CHR 0x0D, CHR '' ''])"

definition ascii_TrimSpace :: "string \<Rightarrow> string" where
  "ascii_TrimSpace s = rev (dropWhile is_space (rev (dropWhile is_space s)))"

definition digit_val :: "char \<Rightarrow> int" where
  "digit_val c = int (of_char c) - 48"

definition number :: "string \<Rightarrow> int" where
  "number s = foldl (\<lambda>a c. 10 * a + digit_val c) 0 s"

definition is_leap :: "int \<Rightarrow> bool" where
  "is_leap y = (y mod 4 = 0 \<and> (y mod 100 \<noteq> 0 \<or> y mod 400 = 0))"

definition days_in :: "int \<Rightarrow> int \<Rightarrow> int" where
  "days_in y m =
     (if m = 2 then (if is_leap y then 29 else 28)
      else if m = 4 \<or> m = 6 \<or> m = 9 \<or> m = 11 then 30 else 31)"

definition days_from_civil :: "int \<Rightarrow> int \<Rightarrow> int \<Rightarrow> int" where
  "days_from_civil y m d =
     (let y' = (if m \<le> 2 then y - 1 else y);
          era = y' div 400;
          yoe = y' - era * 400;
          doy = (153 * (if m > 2 then m - 3 else m + 9) + 2) div 5 + d - 1;
          doe = yoe * 365 + yoe div 4 - yoe div 100 + doy
      in era * 146097 + doe - 719468)"

definition zero_time_unix :: int where
  "zero_time_unix = - 62135596800"

definition civil_unix :: "int \<Rightarrow> int \<Rightarrow> int \<Rightarrow> int \<Rightarrow> int \<Rightarrow> int \<Rightarrow> int \<Rightarrow> int" where
  "civil_unix off y m d hh mm ss =
     (if 1 \<le> m \<and> m \<le> 12 \<and> 1 \<le> d \<and> d \<le> days_in y m \<and> hh < 24 \<and> mm < 60 \<and> ss < 60
      then days_from_civil y m d * 86400 + hh * 3600 + mm * 60 + ss - off
      else zero_time_unix)"

definition fixed_zone_ParseUnix :: "int \<Rightarrow> string \<Rightarrow> string \<Rightarrow> int64" where
  "fixed_zone_ParseUnix off layout v =
     (if layout = LOG_FILE_TIME_FORMAT \<and> file_ts_fmt v
      then civil_unix off (number (take 4 v)) (number (take 2 (drop 4 v)))
             (number (take 2 (drop 6 v))) (number (take 2 (drop 9 v)))
             (number (take 2 (drop 11 v))) (number (take 2 (drop 13 v)))
      else if layout = LOG_LINE_TIME_FORMAT \<and> line_ts_fmt v
      then civil_unix off (number (take 4 v)) (number (take 2 (drop 5 v)))
             (number (take 2 (drop 8 v))) (number (take 2 (drop 11 v)))
             (number (take 2 (drop 14 v))) (number (take 2 (drop 17 v)))
      else zero_time_unix)"

definition fixed_zone_lib :: "int \<Rightarrow> golib" where
  "fixed_zone_lib off = \<lparr>TrimSpace = ascii_TrimSpace, ParseUnix = fixed_zone_ParseUnix off\<rparr>"

text \<open>A directory with the pointer to the latest file and two log files.\<close>

definition ex_dir :: "dirent list" where
  "ex_dir =
     [\<lparr>Name = ''latest'', Size = 37, IsRegular = False, ModTime = 3, Lines = None\<rparr>,
      \<lparr>Name = ''20180501-153256_20180501-153256_1.log'', Size = 60, IsRegular = True,
         ModTime = 1,
         Lines = Some [''2018/05/01 15:33:00 a'', ''2018/05/03 00:00:00 late'']\<rparr>,
      \<lparr>Name = ''20180501-153256_20180502-000000_2.log'', Size = 60, IsRegular = True,
         ModTime = 2,
         Lines = Some [''2018/05/02 00:00:10 c'', ''2018/05/02 00:00:30 d'']\<rparr>]"

text \<open>Entries, a platform and states for evaluation.\<close>

definition entry :: "string \<Rightarrow> logEntry" where
  "entry t = \<lparr>le_file = ''main.go'', le_text = t, le_line = 10, le_level = 1\<rparr>"

definition env0 :: osenv where
  "env0 =
     \<lparr>alsoLogToStdoutFlag = False, maxLogFileSizeFlag = 10 * 1000 * 1000,
      maxLogDirSizeFlag = 1000 * 1000 * 1000,
      write_to_log = (\<lambda>m. case m of Data d \<Rightarrow> int (length d) | _ \<Rightarrow> 0),
      os_Stat = (\<lambda>f. Some 0), os_Readdir = (\<lambda>d. Some ex_dir),
      sort_Slice_ModTime = sort_key ModTime, os_Remove = (\<lambda>f. True),
      redirect_stdout_stderr_to = (\<lambda>f. 0),
      logFileBase = (\<lambda>n. ''20180501-153256_20180502-000000_2.log'')\<rparr>"

definition package0 :: package where
  "package0 = \<lparr>pipeline = init_logging, lr = None\<rparr>"

text \<open>
  A platform with a small file size limit, where \<open>os.Stat\<close> reports 1200 bytes, and a
  redirector that has written \<open>bw\<close> bytes to its file.
\<close>

definition env_rotate :: osenv where
  "env_rotate = env0\<lparr>maxLogFileSizeFlag := 1000, os_Stat := (\<lambda>f. Some 1200)\<rparr>"

definition redirector_at :: "int64 \<Rightarrow> LogRedirector" where
  "redirector_at bw = (NewLogRedirector env_rotate 100 ''/logs'')\<lparr>bytesWritten := bw\<rparr>"



section \<open>Properties of retrieval\<close>

subsection \<open>The tests of the repository\<close>

text \<open>
  \<open>redirect_test.go\<close> runs in the zone of Los Angeles; both of its dates are in
  daylight saving time, seven hours west of UTC.
\<close>

lemma TestLogFileStartTs:
  "LogFileStartTs (fixed_zone_lib (- 25200)) ''20180501-153256_20180501-153256_1.log''
     = Inr 1525213976"
  "LogFileStartTs (fixed_zone_lib (- 25200)) ''20180321-115417_20180321-145756_3.log''
     = Inr 1521669476"
  by code_simp+

lemma TestLogLineTs:
  "LogLineTs (fixed_zone_lib (- 25200))
     ''2018/05/01 15:37:45 [server/home_server/main_common.go:184] Running HTTPS server''
     = 1525214265"
  "LogLineTs (fixed_zone_lib (- 25200)) ''############## Camect HTTP Server #############''
     = 0"
  by code_simp+

subsection \<open>Panics\<close>

lemma LogFileStartTs_no_match:
  "\<not> logFileNameRe_MatchString n \<Longrightarrow> LogFileStartTs lib n = Inl IndexOutOfRange"
  by (simp add: logFileNameRe_MatchString_def LogFileStartTs_def index_def)

lemma LogFileStartTs_match:
  "logFileNameRe_MatchString n \<Longrightarrow>
   LogFileStartTs lib n = Inr (ParseUnix lib LOG_FILE_TIME_FORMAT (take 15 (drop 16 n)))"
  by (simp add: logFileNameRe_MatchString_def LogFileStartTs_def index_def
      logFileNameRe_FindStringSubmatch_def Let_def split: if_splits)

lemma search_loop_total:
  "(\<And>h. h < n \<Longrightarrow> \<exists>b. f h = Inr b) \<Longrightarrow> j \<le> n \<Longrightarrow> i \<le> j \<Longrightarrow>
   \<exists>k. search_loop f i j = Inr k \<and> i \<le> k \<and> k \<le> j"
proof (induction f i j rule: search_loop.induct)
  case (1 f i j)
  show ?case
  proof (cases "i < j")
    case False
    with "1.prems" show ?thesis by (subst search_loop.simps) simp
  next
    case True
    let ?h = "(i + j) div 2"
    from True "1.prems" have hn: "?h < n" and ih: "i \<le> ?h" and hj: "?h < j" by linarith+
    from "1.prems"(1)[OF hn] obtain b where b: "f ?h = Inr b" by blast
    show ?thesis
    proof (cases b)
      case True
      from "1.IH"(2)[OF \<open>i < j\<close> refl b _ "1.prems"(1)] True hj ih "1.prems"(2)
      obtain k where "search_loop f i ?h = Inr k" "i \<le> k" "k \<le> ?h" by auto
      with \<open>i < j\<close> b True hj show ?thesis
        by (subst search_loop.simps) (auto simp: Let_def)
    next
      case False
      from "1.IH"(1)[OF \<open>i < j\<close> refl b _ "1.prems"(1)] False hj ih "1.prems"(2)
      obtain k where "search_loop f (?h + 1) j = Inr k" "?h + 1 \<le> k" "k \<le> j" by auto
      with \<open>i < j\<close> b False ih show ?thesis
        by (subst search_loop.simps) (auto simp: Let_def)
    qed
  qed
qed

lemma logLinesAfter_total:
  "logFileNameRe_MatchString (Name fi) \<Longrightarrow> \<exists>r. logLinesAfter lib fi s nb = Inr r"
  by (simp add: logLinesAfter_def LogFileStartTs_match split: option.splits)

lemma after_loop_total:
  "k \<le> length fis \<Longrightarrow> list_all (\<lambda>fi. logFileNameRe_MatchString (Name fi)) fis \<Longrightarrow>
   \<exists>ls. after_loop lib fis k s nb lines = Inr ls"
proof (induction k arbitrary: nb lines)
  case 0
  show ?case by simp
next
  case (Suc k)
  then have k: "k < length fis" by simp
  with Suc.prems have "logFileNameRe_MatchString (Name (fis ! k))"
    by (simp add: list_all_length)
  from logLinesAfter_total[OF this] obtain ls nb' where
    r: "logLinesAfter lib (fis ! k) s nb = Inr (ls, nb')" by (metis surj_pair)
  from Suc.IH[of nb' "lines @ ls"] Suc.prems k
  obtain out where "after_loop lib fis k s nb' (lines @ ls) = Inr out" by auto
  with k r show ?case by (simp add: index_def Let_def)
qed

lemma latest_first_all_match:
  "list_all (\<lambda>fi. logFileNameRe_MatchString (Name fi)) (latest_first (log_files entries))"
  by (simp add: latest_first_def log_files_def list_all_iff)

lemma start_ts_at_total:
  "list_all (\<lambda>fi. logFileNameRe_MatchString (Name fi)) fis \<Longrightarrow> h < length fis \<Longrightarrow>
   \<exists>b. start_ts_at lib fis p h = Inr b"
  by (simp add: start_ts_at_def index_def list_all_length LogFileStartTs_match)

lemma LogRedirector_LogLines_total:
  "\<exists>ls. LogRedirector_LogLines lib dir startTs numBytes = Inr ls"
proof (cases dir)
  case None
  then show ?thesis by (simp add: LogRedirector_LogLines_def)
next
  case (Some entries)
  let ?fis = "latest_first (log_files entries)"
  have m: "list_all (\<lambda>fi. logFileNameRe_MatchString (Name fi)) ?fis"
    by (rule latest_first_all_match)
  have len: "length ?fis = length (log_files entries)"
    by (simp add: latest_first_def)
  show ?thesis
  proof (cases "length (log_files entries) = 0")
    case True
    with Some show ?thesis by (simp add: LogRedirector_LogLines_def)
  next
    case False
    have s: "\<exists>k. sort_Search (length ?fis) (start_ts_at lib ?fis p) = Inr k \<and> k \<le> length ?fis" for p
      using search_loop_total[of "length ?fis" "start_ts_at lib ?fis p" "length ?fis" 0]
        start_ts_at_total[OF m]
      by (auto simp: sort_Search_def)
    consider "startTs = 0" | "startTs > 0" | "startTs < 0" by linarith
    then show ?thesis
    proof cases
      case 1
      with Some False show ?thesis by (simp add: LogRedirector_LogLines_def Let_def)
    next
      case 2
      from s[of "\<lambda>ts. ts \<le> startTs"] obtain k where
        k: "sort_Search (length ?fis) (start_ts_at lib ?fis (\<lambda>ts. ts \<le> startTs)) = Inr k"
        "k \<le> length ?fis" by blast
      let ?start = "if k = length ?fis then length ?fis - 1 else k"
      from k False len have "Suc ?start \<le> length ?fis" by auto
      from after_loop_total[OF this m, of lib startTs numBytes "[]"]
      obtain ls where "after_loop lib ?fis (Suc ?start) startTs numBytes [] = Inr ls" by blast
      with Some False 2 k show ?thesis
        by (simp add: LogRedirector_LogLines_def Let_def)
    next
      case 3
      from s[of "\<lambda>ts. ts < neg64 startTs"] obtain k where
        "sort_Search (length ?fis) (start_ts_at lib ?fis (\<lambda>ts. ts < neg64 startTs)) = Inr k"
        by blast
      with Some False 3 show ?thesis
        by (simp add: LogRedirector_LogLines_def Let_def)
    qed
  qed
qed

text \<open>
  Claim C10. \<open>LogFileStartTs\<close> panics (index out of range, on the nil slice of
  submatches) exactly on the file names that do not match the pattern of log file names,
  and \<open>LogLines\<close> never panics: it returns a slice for every directory, time and budget,
  because it calls \<open>LogFileStartTs\<close> on filtered names only.
\<close>

theorem LogFileStartTs_partial:
  "(LogFileStartTs lib fileName = Inl IndexOutOfRange \<longleftrightarrow> \<not> logFileNameRe_MatchString fileName)
   \<and> (\<exists>ls. LogLines lib rd startTs numBytes = Inr ls)"
proof
  show "LogFileStartTs lib fileName = Inl IndexOutOfRange \<longleftrightarrow> \<not> logFileNameRe_MatchString fileName"
    using LogFileStartTs_no_match[of fileName lib] LogFileStartTs_match[of fileName lib]
    by auto
  show "\<exists>ls. LogLines lib rd startTs numBytes = Inr ls"
    using LogRedirector_LogLines_total by (cases rd) (auto simp: LogLines_def)
qed

theorem LogFileStartTs_partial_witness:
  "LogFileStartTs (fixed_zone_lib 0) ''latest'' = Inl IndexOutOfRange
   \<and> \<not> logFileNameRe_MatchString ''latest''
   \<and> LogFileStartTs (fixed_zone_lib 0) ''20180501-153256_20180501-153256_1.log'' \<noteq> Inl IndexOutOfRange
   \<and> logFileNameRe_MatchString ''20180501-153256_20180501-153256_1.log''"
proof -
  have a: "\<not> logFileNameRe_MatchString ''latest''" by code_simp
  have b: "logFileNameRe_MatchString ''20180501-153256_20180501-153256_1.log''" by code_simp
  from a b LogFileStartTs_partial[of "fixed_zone_lib 0" "''latest''"]
    LogFileStartTs_partial[of "fixed_zone_lib 0" "''20180501-153256_20180501-153256_1.log''"]
  show ?thesis by blast
qed

subsection \<open>The byte budget\<close>

text \<open>
  Claim C1. With one log file that holds the line \<open>hello\<close>, \<open>LogLines(0, 1)\<close> returns
  that line: five bytes for a budget of one. The line that takes \<open>*numBytes\<close> to zero or
  below is part of the result.
\<close>

theorem LogLines_exceeds_numBytes:
  "LogLines (fixed_zone_lib 0)
     (Some (Some [\<lparr>Name = ''20180501-153256_20180501-153256_1.log'', Size = 6,
                   IsRegular = True, ModTime = 0, Lines = Some [''hello'']\<rparr>])) 0 1
     = Inr [''hello'']
   \<and> \<not> int (sum_list (map length [''hello''])) \<le> 1"
  by code_simp

text \<open>The same with \<open>startTs > 0\<close>, through \<open>logLinesAfter\<close>.\<close>

lemma LogLines_after_exceeds_numBytes:
  "LogLines (fixed_zone_lib 0)
     (Some (Some [\<lparr>Name = ''20180501-153256_20180501-153256_1.log'', Size = 6,
                   IsRegular = True, ModTime = 0, Lines = Some [''hello'']\<rparr>])) 1 1
     = Inr [''hello'']"
  by code_simp

subsection \<open>The query before a time\<close>





lemma budget_tail_suffix: "i \<le> length lines \<Longrightarrow> \<exists>k. fst (budget_tail lines i nb) = drop k lines"
proof (induction i arbitrary: nb)
  case 0
  show ?case by (rule exI[of _ 0]) simp
next
  case (Suc i)
  then show ?case by (auto simp: Let_def)
qed






lemma wrap64_id: "is_int64 x \<Longrightarrow> wrap64 x = x"
  by (simp add: is_int64_def wrap64_def)







section \<open>Properties of the pipeline\<close>

subsection \<open>Repeated lines\<close>

lemma loop_body_keeps:
  "logCh (loop_body s le) = logCh s" "held (loop_body s le) = held s"
  "wg_done (loop_body s le) = wg_done s"
  by (simp_all add: loop_body_def dedup_def swap_dropped_def Let_def)

lemma consume_keeps:
  "logCh (consume s les) = logCh s" "held (consume s les) = held s"
  "wg_done (consume s les) = wg_done s"
  by (induction les arbitrary: s) (simp_all add: consume_def loop_body_keeps)









subsection \<open>Shutdown\<close>

text \<open>On the closed channel the consumer handles every buffered entry and returns.\<close>

lemma processLogs_drains:
  "chan_closed (logCh s) \<Longrightarrow> held s = None \<Longrightarrow> \<not> wg_done s \<Longrightarrow> chan_buf (logCh s) = les \<Longrightarrow>
   processLogs s = Returns ((consume (s\<lparr>logCh := (logCh s)\<lparr>chan_buf := []\<rparr>\<rparr>) les)\<lparr>wg_done := True\<rparr>)"
proof (induction les arbitrary: s)
  case Nil
  then have "consumer_step s = Returns (s\<lparr>wg_done := True\<rparr>)"
    by (simp add: consumer_step_def recv_def)
  moreover have "s\<lparr>logCh := (logCh s)\<lparr>chan_buf := []\<rparr>\<rparr> = s"
    using Nil by simp
  ultimately show ?case using Nil
    by (subst processLogs.simps) (simp add: consume_def processLogs.simps[of "s\<lparr>wg_done := True\<rparr>"])
next
  case (Cons le les)
  let ?s1 = "s\<lparr>logCh := (logCh s)\<lparr>chan_buf := les\<rparr>, held := Some le\<rparr>"
  let ?s2 = "loop_body (?s1\<lparr>held := None\<rparr>) le"
  have 1: "consumer_step s = Returns ?s1"
    using Cons.prems by (simp add: consumer_step_def recv_def)
  have 2: "consumer_step ?s1 = Returns ?s2"
    by (simp add: consumer_step_def)
  have 3: "processLogs ?s2 = Returns ((consume (?s2\<lparr>logCh := (logCh ?s2)\<lparr>chan_buf := []\<rparr>\<rparr>) les)\<lparr>wg_done := True\<rparr>)"
    using Cons.prems by (intro Cons.IH) (simp_all add: loop_body_keeps)
  have 4: "?s2\<lparr>logCh := (logCh ?s2)\<lparr>chan_buf := []\<rparr>\<rparr>
           = loop_body (s\<lparr>logCh := (logCh s)\<lparr>chan_buf := []\<rparr>\<rparr>) le"
    using Cons.prems by (simp add: loop_body_def dedup_def swap_dropped_def Let_def)
  have "processLogs s = processLogs ?s1"
    using Cons.prems 1 by (subst processLogs.simps) simp
  also have "\<dots> = processLogs ?s2"
    using Cons.prems 2 by (subst processLogs.simps) simp
  finally show ?case using 3 4 by (simp add: consume_def)
qed

lemma consumer_step_closed:
  "consumer_step s = Returns s' \<Longrightarrow> chan_closed (logCh s') = chan_closed (logCh s)"
  by (auto simp: consumer_step_def recv_def loop_body_keeps
      split: option.splits list.splits if_splits)

lemma processLogs_closed:
  "processLogs s = Returns s' \<Longrightarrow> chan_closed (logCh s') = chan_closed (logCh s)"
proof (induction s rule: processLogs.induct)
  case (1 s)
  show ?case
  proof (cases "wg_done s")
    case True
    with "1.prems" show ?thesis by (simp add: processLogs.simps)
  next
    case False
    with "1.prems" obtain t where t: "consumer_step s = Returns t" "processLogs t = Returns s'"
      by (subst (asm) processLogs.simps) (auto split: outcome.splits)
    from "1.IH"[OF False t(1) t(2)] consumer_step_closed[OF t(1)] show ?thesis by simp
  qed
qed

lemma CloseRedirector_pipeline:
  "CloseRedirector env g = Returns g' \<Longrightarrow> pipeline g' = pipeline g \<and> lr g' = None"
  by (auto simp: CloseRedirector_def split: option.splits outcome.splits)

text \<open>A second call of \<open>CloseRedirector\<close> does nothing.\<close>

lemma CloseRedirector_twice:
  "CloseRedirector env g = Returns g' \<Longrightarrow> CloseRedirector env g' = Returns g'"
  using CloseRedirector_pipeline[of env g g'] by (simp add: CloseRedirector_def)

text \<open>A second call of \<open>Close\<close> panics, whatever the first call found.\<close>

lemma Close_twice_panics:
  assumes "Close env g = Returns g'"
  shows "Close env g' = Panics CloseOfClosedChannel"
proof -
  from assms obtain ch s where
    ch: "close_chan (logCh (pipeline g)) = Inr ch"
    and s: "processLogs ((pipeline g)\<lparr>logCh := ch\<rparr>) = Returns s"
    and r: "CloseRedirector env (g\<lparr>pipeline := s\<rparr>) = Returns g'"
    by (auto simp: Close_def split: sum.splits outcome.splits)
  from ch have "chan_closed ch" by (auto simp: close_chan_def split: if_splits)
  with processLogs_closed[OF s] have "chan_closed (logCh s)" by simp
  moreover from CloseRedirector_pipeline[OF r] have "pipeline g' = s" by simp
  ultimately show ?thesis by (simp add: Close_def close_chan_def)
qed

text \<open>
  Claim C6. The first \<open>Close\<close> of the package returns; the second one, called in the
  state the first one left, panics in \<open>close(logCh)\<close>, where \<open>CloseRedirector\<close> tests
  \<open>lr != nil\<close> before it closes anything.
\<close>

theorem Close_second_call_panics:
  "Close env0 package0
     = Returns \<lparr>pipeline = init_logging\<lparr>logCh := \<lparr>chan_buf = [], chan_cap = 10000, chan_closed = True\<rparr>,
                                         wg_done := True\<rparr>,
                lr = None\<rparr>
   \<and> Close env0 \<lparr>pipeline = init_logging\<lparr>logCh := \<lparr>chan_buf = [], chan_cap = 10000, chan_closed = True\<rparr>,
                                         wg_done := True\<rparr>,
                lr = None\<rparr>
     = Panics CloseOfClosedChannel"
    by (simp add: Close_def package0_def init_logging_def make_chan_def close_chan_def
      processLogs.simps consumer_step_def recv_def CloseRedirector_def)

text \<open>
  Claim C5. Two records with the text \<open>a\<close> are submitted and \<open>Close\<close> is called: the
  consumer handles both, prints the first, counts the second, and returns with the count
  at one and no notice printed.
\<close>

theorem pending_repeats_lost_at_Close:
  "logText init_logging (entry ''a'')
     = Returns (init_logging\<lparr>logCh := \<lparr>chan_buf = [entry ''a''], chan_cap = 10000, chan_closed = False\<rparr>\<rparr>)
   \<and> logText (init_logging\<lparr>logCh := \<lparr>chan_buf = [entry ''a''], chan_cap = 10000, chan_closed = False\<rparr>\<rparr>)
        (entry ''a'')
     = Returns (init_logging\<lparr>logCh := \<lparr>chan_buf = [entry ''a'', entry ''a''], chan_cap = 10000,
                                        chan_closed = False\<rparr>\<rparr>)
   \<and> Close env0
        \<lparr>pipeline = init_logging\<lparr>logCh := \<lparr>chan_buf = [entry ''a'', entry ''a''], chan_cap = 10000,
                                           chan_closed = False\<rparr>\<rparr>,
         lr = None\<rparr>
     = Returns
        \<lparr>pipeline = \<lparr>logCh = \<lparr>chan_buf = [], chan_cap = 10000, chan_closed = True\<rparr>,
                      droppedLogLines = 0, lastLogLine = ''a'', lastLogLineRepeatCount = 1,
                      held = None, wg_done = True, log_output = [Printed (entry ''a'')]\<rparr>,
         lr = None\<rparr>"
    by (simp add: Close_def init_logging_def make_chan_def close_chan_def logText_def
      select_send_def send_ready_def send_def entry_def
      processLogs.simps consumer_step_def recv_def CloseRedirector_def
      loop_body_def dedup_def swap_dropped_def Let_def)

subsection \<open>Dropped records\<close>

lemma logText_room:
  "\<not> chan_closed (logCh s) \<Longrightarrow> length (chan_buf (logCh s)) < chan_cap (logCh s) \<Longrightarrow>
   logText s le = Returns (s\<lparr>logCh := (logCh s)\<lparr>chan_buf := chan_buf (logCh s) @ [le]\<rparr>\<rparr>)"
  by (simp add: logText_def select_send_def send_ready_def send_def)

lemma logText_full:
  "\<not> chan_closed (logCh s) \<Longrightarrow> chan_cap (logCh s) \<le> length (chan_buf (logCh s)) \<Longrightarrow>
   logText s le = Returns (s\<lparr>droppedLogLines := droppedLogLines s + 1\<rparr>)"
  by (simp add: logText_def select_send_def send_ready_def)

lemma logText_closed:
  "chan_closed (logCh s) \<Longrightarrow> logText s le = Panics SendOnClosedChannel"
  by (simp add: logText_def select_send_def send_ready_def send_def)

lemma logText_never_blocks: "logText s le \<noteq> Blocks"
  by (cases "chan_closed (logCh s)"; cases "length (chan_buf (logCh s)) < chan_cap (logCh s)")
    (simp_all add: logText_room logText_full logText_closed)

lemma warnings_append: "warnings (xs @ ys) = warnings xs @ warnings ys"
  by (induction xs rule: warnings.induct) simp_all

lemma reported_append: "reported (xs @ ys) = reported xs + reported ys"
  by (simp add: reported_def warnings_append)

lemma reported_simps:
  "reported [] = 0" "reported [DroppedWarning n] = n" "reported [RepeatNotice k] = 0"
  "reported [Printed le] = 0"
  by (simp_all add: reported_def)

lemma swap_dropped_report:
  "droppedLogLines (swap_dropped s) = 0"
  "reported (log_output (swap_dropped s)) = reported (log_output s) + unat (droppedLogLines s)"
  "droppedLogLines s \<noteq> 0 \<Longrightarrow>
     log_output (swap_dropped s) = log_output s @ [DroppedWarning (unat (droppedLogLines s))]"
  "droppedLogLines s = 0 \<Longrightarrow> log_output (swap_dropped s) = log_output s"
  by (auto simp: swap_dropped_def Let_def reported_append reported_simps word_greater_zero_iff
      unat_eq_zero)

lemma dedup_report:
  "droppedLogLines (dedup s le) = droppedLogLines s"
  "reported (log_output (dedup s le)) = reported (log_output s)"
  by (simp_all add: dedup_def Let_def reported_append reported_simps)

lemma loop_body_warnings:
  "warnings (log_output (loop_body s le))
     = warnings (log_output s)
       @ (if droppedLogLines s \<noteq> 0 then [unat (droppedLogLines s)] else [])"
  by (simp add: loop_body_def dedup_def swap_dropped_def Let_def warnings_append
      word_greater_zero_iff)

lemma loop_body_report:
  "droppedLogLines (loop_body s le) = 0"
  "reported (log_output (loop_body s le)) = reported (log_output s) + unat (droppedLogLines s)"
  by (simp_all add: loop_body_def dedup_report swap_dropped_report)

text \<open>What a step does to the counter and to the sum of the reported counts.\<close>

lemma step_counts:
  assumes "step s ev = Returns s'"
  shows "(is_drop s ev \<longrightarrow> droppedLogLines s' = droppedLogLines s + 1
            \<and> log_output s' = log_output s)
       \<and> (\<not> is_drop s ev \<longrightarrow>
            reported (log_output s') + unat (droppedLogLines s')
              = reported (log_output s) + unat (droppedLogLines s))"
proof (cases ev)
  case (Submit le)
  show ?thesis
  proof (cases "send_ready (logCh s)")
    case True
    with assms Submit show ?thesis
      by (auto simp: step_def is_drop_def logText_def select_send_def send_def
          split: if_splits)
  next
    case False
    with assms Submit show ?thesis
      by (auto simp: step_def is_drop_def logText_def select_send_def)
  qed
next
  case Consume
  with assms show ?thesis
    by (auto simp: step_def is_drop_def consumer_step_def recv_def loop_body_report
        split: if_splits option.splits list.splits)
next
  case CloseLogCh
  with assms show ?thesis
    by (auto simp: step_def is_drop_def close_chan_def split: if_splits)
qed

lemma unat_plus_one_no_wrap: "(d :: 32 word) \<noteq> - 1 \<Longrightarrow> unat (d + 1) = unat d + 1"
proof -
  assume "d \<noteq> - 1"
  then have "1 + d \<noteq> 0"
    by (metis add.commute add_eq_0_iff2)
  from unatSuc[OF this] show ?thesis by (simp add: add.commute)
qed

lemma run_counts_word:
  "run s evs = Returns s' \<Longrightarrow>
   (of_nat (reported (log_output s')) :: 32 word) + droppedLogLines s'
     = of_nat (reported (log_output s)) + droppedLogLines s + of_nat (dropped_total s evs)"
proof (induction evs arbitrary: s)
  case Nil
  then show ?case by simp
next
  case (Cons ev evs)
  then obtain t where t: "step s ev = Returns t" "run t evs = Returns s'"
    by (auto split: outcome.splits)
  from step_counts[OF t(1)]
  have "(of_nat (reported (log_output t)) :: 32 word) + droppedLogLines t
        = of_nat (reported (log_output s)) + droppedLogLines s + (if is_drop s ev then 1 else 0)"
  proof (cases "is_drop s ev")
    case True
    with step_counts[OF t(1)] show ?thesis by simp
  next
    case False
    with step_counts[OF t(1)]
    have "reported (log_output t) + unat (droppedLogLines t)
              = reported (log_output s) + unat (droppedLogLines s)" by simp
    then have "(of_nat (reported (log_output t) + unat (droppedLogLines t)) :: 32 word)
              = of_nat (reported (log_output s) + unat (droppedLogLines s))" by simp
    with False show ?thesis by simp
  qed
  with Cons.IH[OF t(2)] t(1) show ?case by simp
qed

lemma run_counts_nat:
  "run s evs = Returns s' \<Longrightarrow> \<not> wraps s evs \<Longrightarrow>
   reported (log_output s') + unat (droppedLogLines s')
     = reported (log_output s) + unat (droppedLogLines s) + dropped_total s evs"
proof (induction evs arbitrary: s)
  case Nil
  then show ?case by simp
next
  case (Cons ev evs)
  then obtain t where t: "step s ev = Returns t" "run t evs = Returns s'"
    by (auto split: outcome.splits)
  from Cons.prems(2) t(1) have nw: "\<not> (is_drop s ev \<and> droppedLogLines s = - 1)" "\<not> wraps t evs"
    by simp_all
  have "reported (log_output t) + unat (droppedLogLines t)
        = reported (log_output s) + unat (droppedLogLines s) + (if is_drop s ev then 1 else 0)"
  proof (cases "is_drop s ev")
    case True
    with nw(1) have "droppedLogLines s \<noteq> - 1" by simp
    with step_counts[OF t(1)] True show ?thesis by (simp add: unat_plus_one_no_wrap)
  next
    case False
    with step_counts[OF t(1)] show ?thesis by simp
  qed
  with Cons.IH[OF t(2) nw(2)] t(1) show ?case by simp
qed

lemma step_pending_ok:
  assumes "step s ev = Returns s'" "pending_ok s"
  shows "pending_ok s'"
proof (cases ev)
  case (Submit le)
  with assms show ?thesis
    by (auto simp: step_def pending_ok_def logText_def select_send_def send_def send_ready_def
        split: if_splits)
next
  case Consume
  with assms show ?thesis
    by (auto simp: step_def pending_ok_def consumer_step_def recv_def loop_body_report
        loop_body_keeps split: if_splits option.splits list.splits)
next
  case CloseLogCh
  with assms show ?thesis
    by (auto simp: step_def pending_ok_def close_chan_def split: if_splits)
qed

lemma run_pending_ok: "run s evs = Returns s' \<Longrightarrow> pending_ok s \<Longrightarrow> pending_ok s'"
proof (induction evs arbitrary: s)
  case Nil
  then show ?case by simp
next
  case (Cons ev evs)
  then obtain t where t: "step s ev = Returns t" "run t evs = Returns s'"
    by (auto split: outcome.splits)
  from Cons.IH[OF t(2) step_pending_ok[OF t(1) Cons.prems(2)]] show ?case .
qed

lemma init_pending_ok: "pending_ok init_logging"
  by (simp add: pending_ok_def init_logging_def make_chan_def)


subsection \<open>The counter wraps\<close>

lemma run_append:
  "run s (xs @ ys) = (case run s xs of Returns t \<Rightarrow> run t ys | Blocks \<Rightarrow> Blocks | Panics e \<Rightarrow> Panics e)"
  by (induction xs arbitrary: s) (simp_all split: outcome.splits)

lemma dropped_total_append:
  "run s xs = Returns t \<Longrightarrow> dropped_total s (xs @ ys) = dropped_total s xs + dropped_total t ys"
  by (induction xs arbitrary: s) (auto split: outcome.splits)

lemma submits_room:
  "\<not> chan_closed (logCh s) \<Longrightarrow> length (chan_buf (logCh s)) + n \<le> chan_cap (logCh s) \<Longrightarrow>
   run s (replicate n (Submit le))
     = Returns (s\<lparr>logCh := (logCh s)\<lparr>chan_buf := chan_buf (logCh s) @ replicate n le\<rparr>\<rparr>)
   \<and> dropped_total s (replicate n (Submit le)) = 0"
proof (induction n arbitrary: s)
  case 0
  then show ?case by simp
next
  case (Suc n)
  let ?t = "s\<lparr>logCh := (logCh s)\<lparr>chan_buf := chan_buf (logCh s) @ [le]\<rparr>\<rparr>"
  from Suc.prems have st: "step s (Submit le) = Returns ?t" "\<not> is_drop s (Submit le)"
    by (simp_all add: step_def logText_room is_drop_def send_ready_def)
  from Suc.prems have "run ?t (replicate n (Submit le))
     = Returns (?t\<lparr>logCh := (logCh ?t)\<lparr>chan_buf := chan_buf (logCh ?t) @ replicate n le\<rparr>\<rparr>)
   \<and> dropped_total ?t (replicate n (Submit le)) = 0"
    by (intro Suc.IH) simp_all
  with st show ?case by (simp add: replicate_app_Cons_same)
qed

lemma submits_full:
  "\<not> chan_closed (logCh s) \<Longrightarrow> chan_cap (logCh s) \<le> length (chan_buf (logCh s)) \<Longrightarrow>
   run s (replicate n (Submit le))
     = Returns (s\<lparr>droppedLogLines := droppedLogLines s + of_nat n\<rparr>)
   \<and> dropped_total s (replicate n (Submit le)) = n"
proof (induction n arbitrary: s)
  case 0
  then show ?case by simp
next
  case (Suc n)
  let ?t = "s\<lparr>droppedLogLines := droppedLogLines s + 1\<rparr>"
  from Suc.prems have st: "step s (Submit le) = Returns ?t" "is_drop s (Submit le)"
    by (simp_all add: step_def logText_full is_drop_def send_ready_def)
  from Suc.prems have "run ?t (replicate n (Submit le))
     = Returns (?t\<lparr>droppedLogLines := droppedLogLines ?t + of_nat n\<rparr>)
   \<and> dropped_total ?t (replicate n (Submit le)) = n"
    by (intro Suc.IH) simp_all
  with st show ?case by (simp add: add.assoc)
qed

lemma wraps_append:
  "run s xs = Returns t \<Longrightarrow> wraps s (xs @ ys) = (wraps s xs \<or> wraps t ys)"
  by (induction xs arbitrary: s) (auto split: outcome.splits)

lemma submits_room_no_wrap:
  "\<not> chan_closed (logCh s) \<Longrightarrow> length (chan_buf (logCh s)) + n \<le> chan_cap (logCh s) \<Longrightarrow>
   \<not> wraps s (replicate n (Submit le))"
proof (induction n arbitrary: s)
  case 0
  then show ?case by simp
next
  case (Suc n)
  let ?t = "s\<lparr>logCh := (logCh s)\<lparr>chan_buf := chan_buf (logCh s) @ [le]\<rparr>\<rparr>"
  from Suc.prems have st: "step s (Submit le) = Returns ?t" "\<not> is_drop s (Submit le)"
    by (simp_all add: step_def logText_room is_drop_def send_ready_def)
  from Suc.prems have "\<not> wraps ?t (replicate n (Submit le))"
    by (intro Suc.IH) simp_all
  with st show ?case by simp
qed

text \<open>
  Claim C3, as stated, fails when the counter wraps: after 10000 records have filled the
  buffer, \<open>2 ^ 32\<close> more are dropped and the \<open>uint32\<close> counter is back at zero; the
  consumer then receives and handles its next entry without a warning. \<open>2 ^ 32\<close> records
  were dropped, the counts reported add up to zero, and the counter holds zero.
\<close>

theorem drop_counter_wraps:
  "final_counts (replicate 10000 (Submit (entry ''a''))
                 @ replicate (2 ^ 32) (Submit (entry ''a'')) @ [Consume, Consume])
     = Some (2 ^ 32, 0, 0)"
proof -
  let ?e = "entry ''a''"
  let ?s1 = "init_logging\<lparr>logCh := (logCh init_logging)\<lparr>chan_buf := replicate 10000 ?e\<rparr>\<rparr>"
  have 1: "run init_logging (replicate 10000 (Submit ?e)) = Returns ?s1"
    "dropped_total init_logging (replicate 10000 (Submit ?e)) = 0"
    using submits_room[of init_logging 10000 ?e]
    by (simp_all add: init_logging_def make_chan_def)
  have w: "(of_nat (2 ^ 32) :: 32 word) = 0" by simp
  have 2: "run ?s1 (replicate (2 ^ 32) (Submit ?e)) = Returns ?s1"
    "dropped_total ?s1 (replicate (2 ^ 32) (Submit ?e)) = 2 ^ 32"
    using submits_full[of ?s1 "2 ^ 32" ?e] w
    by (simp_all add: init_logging_def make_chan_def)
  have r: "replicate 10000 ?e = ?e # replicate 9999 ?e"
    by (simp add: replicate_Suc[symmetric] del: replicate_Suc)
  let ?s2 = "?s1\<lparr>logCh := (logCh ?s1)\<lparr>chan_buf := replicate 9999 ?e\<rparr>, held := Some ?e\<rparr>"
  let ?s3 = "loop_body (?s2\<lparr>held := None\<rparr>) ?e"
  have 3: "run ?s1 [Consume, Consume] = Returns ?s3"
    "dropped_total ?s1 [Consume, Consume] = 0"
    by (simp_all add: step_def consumer_step_def recv_def is_drop_def r init_logging_def
        make_chan_def)
  have 4: "reported (log_output ?s3) = 0" "droppedLogLines ?s3 = 0"
    by (simp_all add: loop_body_report init_logging_def reported_simps)
  have run: "run init_logging (replicate 10000 (Submit ?e)
                 @ replicate (2 ^ 32) (Submit ?e) @ [Consume, Consume]) = Returns ?s3"
    using 1(1) 2(1) 3(1) by (simp add: run_append)
  have "run init_logging (replicate 10000 (Submit ?e) @ replicate (2 ^ 32) (Submit ?e))
          = Returns ?s1"
    using 1(1) 2(1) by (simp add: run_append)
  from dropped_total_append[OF this, of "[Consume, Consume]"]
    dropped_total_append[OF 1(1), of "replicate (2 ^ 32) (Submit ?e)"] 1(2) 2(2) 3(2)
  have tot: "dropped_total init_logging (replicate 10000 (Submit ?e)
                 @ replicate (2 ^ 32) (Submit ?e) @ [Consume, Consume]) = 2 ^ 32"
    by simp
  show ?thesis
    unfolding final_counts_def run tot using 4 by simp
qed


text \<open>
  Claim C3, amended. In every state an execution reaches from the initial state:
  \<open>logText\<close> does not block, and on the open full buffer it discards the record and
  adds one to the counter; while the counter is not zero the consumer has an entry still
  to handle, and handling an entry prints exactly one warning, with the value of the
  counter, and sets the counter to zero; the counts reported and the counter add up to
  the number of records dropped modulo \<open>2 ^ 32\<close>, and exactly when no drop found the
  counter at its greatest value.
\<close>

theorem drops_are_reported:
  assumes "run init_logging evs = Returns s"
  shows "logText s le \<noteq> Blocks
    \<and> (\<not> chan_closed (logCh s) \<and> chan_cap (logCh s) \<le> length (chan_buf (logCh s)) \<longrightarrow>
         logText s le = Returns (s\<lparr>droppedLogLines := droppedLogLines s + 1\<rparr>))
    \<and> (droppedLogLines s \<noteq> 0 \<longrightarrow>
         (chan_buf (logCh s) \<noteq> [] \<or> held s \<noteq> None)
         \<and> warnings (log_output (loop_body s le))
             = warnings (log_output s) @ [unat (droppedLogLines s)]
         \<and> droppedLogLines (loop_body s le) = 0)
    \<and> (of_nat (dropped_total init_logging evs) :: 32 word)
         = of_nat (reported (log_output s)) + droppedLogLines s
    \<and> (\<not> wraps init_logging evs \<longrightarrow>
         dropped_total init_logging evs = reported (log_output s) + unat (droppedLogLines s))"
proof (intro conjI impI)
  show "logText s le \<noteq> Blocks" by (rule logText_never_blocks)
  show "logText s le = Returns (s\<lparr>droppedLogLines := droppedLogLines s + 1\<rparr>)"
    if "\<not> chan_closed (logCh s) \<and> chan_cap (logCh s) \<le> length (chan_buf (logCh s))"
    using that by (simp add: logText_full)
  show "chan_buf (logCh s) \<noteq> [] \<or> held s \<noteq> None" if "droppedLogLines s \<noteq> 0"
    using run_pending_ok[OF assms init_pending_ok] that by (simp add: pending_ok_def)
  show "warnings (log_output (loop_body s le))
          = warnings (log_output s) @ [unat (droppedLogLines s)]" if "droppedLogLines s \<noteq> 0"
    using that by (simp add: loop_body_warnings)
  show "droppedLogLines (loop_body s le) = 0"
    by (rule loop_body_report)
  show "(of_nat (dropped_total init_logging evs) :: 32 word)
         = of_nat (reported (log_output s)) + droppedLogLines s"
    using run_counts_word[OF assms] by (simp add: init_logging_def reported_simps)
  show "dropped_total init_logging evs = reported (log_output s) + unat (droppedLogLines s)"
    if "\<not> wraps init_logging evs"
    using run_counts_nat[OF assms that] by (simp add: init_logging_def reported_simps)
qed

theorem drops_are_reported_witness:
  "run init_logging (replicate 10000 (Submit (entry ''a'')) @ [Submit (entry ''b''), Submit (entry ''b'')])
     = Returns (init_logging\<lparr>logCh := \<lparr>chan_buf = replicate 10000 (entry ''a''), chan_cap = 10000,
                                         chan_closed = False\<rparr>,
                               droppedLogLines := 2\<rparr>)
   \<and> \<not> wraps init_logging
          (replicate 10000 (Submit (entry ''a'')) @ [Submit (entry ''b''), Submit (entry ''b'')])
   \<and> logText (init_logging\<lparr>logCh := \<lparr>chan_buf = replicate 10000 (entry ''a''), chan_cap = 10000,
                                         chan_closed = False\<rparr>,
                               droppedLogLines := 2\<rparr>) (entry ''c'')
       = Returns (init_logging\<lparr>logCh := \<lparr>chan_buf = replicate 10000 (entry ''a''), chan_cap = 10000,
                                         chan_closed = False\<rparr>,
                               droppedLogLines := 3\<rparr>)
   \<and> warnings (log_output (loop_body
        (init_logging\<lparr>logCh := \<lparr>chan_buf = replicate 10000 (entry ''a''), chan_cap = 10000,
                                         chan_closed = False\<rparr>,
                               droppedLogLines := 2\<rparr>) (entry ''c''))) = [2]
   \<and> dropped_total init_logging
        (replicate 10000 (Submit (entry ''a'')) @ [Submit (entry ''b''), Submit (entry ''b'')]) = 2"
proof -
  let ?a = "entry ''a''" and ?b = "entry ''b''"
  let ?evs = "replicate 10000 (Submit ?a) @ [Submit ?b, Submit ?b]"
  let ?s1 = "init_logging\<lparr>logCh := \<lparr>chan_buf = replicate 10000 ?a, chan_cap = 10000,
                                         chan_closed = False\<rparr>\<rparr>"
  let ?s2 = "init_logging\<lparr>logCh := \<lparr>chan_buf = replicate 10000 ?a, chan_cap = 10000,
                                         chan_closed = False\<rparr>, droppedLogLines := 2\<rparr>"
  have 1: "run init_logging (replicate 10000 (Submit ?a)) = Returns ?s1"
    using submits_room[of init_logging 10000 ?a]
    by (simp add: init_logging_def make_chan_def)
  have nw1: "\<not> wraps init_logging (replicate 10000 (Submit ?a))"
    by (rule submits_room_no_wrap) (simp_all add: init_logging_def make_chan_def)
  have 2: "run ?s1 [Submit ?b, Submit ?b] = Returns ?s2"
    "\<not> wraps ?s1 [Submit ?b, Submit ?b]"
    by (simp_all add: step_def logText_full is_drop_def send_ready_def init_logging_def)
  have run: "run init_logging ?evs = Returns ?s2"
    using 1 2(1) by (simp add: run_append)
  have nw: "\<not> wraps init_logging ?evs"
    using wraps_append[OF 1, of "[Submit ?b, Submit ?b]"] nw1 2(2) by simp
  have full: "\<not> chan_closed (logCh ?s2) \<and> chan_cap (logCh ?s2) \<le> length (chan_buf (logCh ?s2))"
    by simp
  have nz: "droppedLogLines ?s2 \<noteq> 0" by simp
  have vals: "log_output ?s2 = []" "unat (droppedLogLines ?s2) = 2"
    "?s2\<lparr>droppedLogLines := droppedLogLines ?s2 + 1\<rparr> = init_logging\<lparr>logCh := \<lparr>chan_buf = replicate 10000 ?a, chan_cap = 10000,
                                         chan_closed = False\<rparr>, droppedLogLines := 3\<rparr>"
    by (simp_all add: init_logging_def)
  from drops_are_reported[OF run, of "entry ''c''"] full nz nw run vals
  show ?thesis by (simp add: reported_simps)
qed

section \<open>Properties of the writer\<close>

subsection \<open>Write\<close>

lemma Write_never_logChFullErr: "Write l p \<noteq> Returns (l', n, Some logChFullErr)"
  by (auto simp: Write_def select_send_def Let_def split: sum.splits if_splits)

lemma Write_full_blocks:
  "\<not> chan_closed (lr_logCh l) \<Longrightarrow> chan_cap (lr_logCh l) \<le> length (chan_buf (lr_logCh l)) \<Longrightarrow>
   Write l p = Blocks"
  by (simp add: Write_def select_send_def send_ready_def)

text \<open>
  Claim C2. With a queue of capacity one, the first \<open>Write\<close> enqueues its chunk and
  returns its length; the second one, on the full queue, blocks: it does not return
  \<open>(0, logChFullErr)\<close>.
\<close>

theorem Write_blocks_on_full_queue:
  "Write (NewLogRedirector env0 1 ''/logs'') ''a''
     = Returns ((NewLogRedirector env0 1 ''/logs'')
                  \<lparr>lr_logCh := \<lparr>chan_buf = [''a''], chan_cap = 1, chan_closed = False\<rparr>\<rparr>, 1, None)
   \<and> Write ((NewLogRedirector env0 1 ''/logs'')
                  \<lparr>lr_logCh := \<lparr>chan_buf = [''a''], chan_cap = 1, chan_closed = False\<rparr>\<rparr>) ''b''
     = Blocks"
    by (simp add: Write_def NewLogRedirector_def redirectToNewFile_def env0_def make_chan_def
      select_send_def send_ready_def send_def do_effects_def writeToCStdout_def Let_def)


subsection \<open>Rotation\<close>

lemma effects_do_effects: "effects (do_effects es l) = effects l @ es"
  by (simp add: do_effects_def)

lemma div_bounds:
  fixes x b :: int
  assumes "0 < b"
  shows "(x div b) * b \<le> x" and "x < (x div b + 1) * b"
proof -
  have eq: "x = (x div b) * b + x mod b" by simp
  from eq pos_mod_sign[OF assms, of x] show "(x div b) * b \<le> x" by linarith
  have "(x div b + 1) * b = (x div b) * b + b" by (simp add: algebra_simps)
  with eq pos_mod_bound[OF assms, of x] show "x < (x div b + 1) * b" by linarith
qed

text \<open>The quotient by \<open>b\<close> changes exactly when a multiple of \<open>b\<close> is crossed.\<close>

lemma crossing_iff:
  fixes a n b :: int
  assumes "0 \<le> n" "0 < b"
  shows "(a + n) div b \<noteq> a div b \<longleftrightarrow> (\<exists>m. a < m * b \<and> m * b \<le> a + n)"
proof
  assume ne: "(a + n) div b \<noteq> a div b"
  let ?m = "(a + n) div b"
  have "a div b \<le> ?m" using assms by (simp add: zdiv_mono1)
  with ne have lt: "a div b + 1 \<le> ?m" by simp
  have "a < (a div b + 1) * b" by (rule div_bounds[OF assms(2)])
  also have "\<dots> \<le> ?m * b" using lt assms(2) by (simp add: mult_right_mono)
  finally have "a < ?m * b" .
  moreover have "?m * b \<le> a + n" by (rule div_bounds[OF assms(2)])
  ultimately show "\<exists>m. a < m * b \<and> m * b \<le> a + n" by blast
next
  assume "\<exists>m. a < m * b \<and> m * b \<le> a + n"
  then obtain m where m: "a < m * b" "m * b \<le> a + n" by blast
  have "a div b < m"
  proof (rule ccontr)
    assume "\<not> a div b < m"
    then have "m * b \<le> (a div b) * b" using assms(2) by (simp add: mult_right_mono)
    with div_bounds(1)[OF assms(2), of a] m(1) show False by linarith
  qed
  moreover have "m \<le> (a + n) div b"
  proof (rule ccontr)
    assume "\<not> m \<le> (a + n) div b"
    then have "(a + n) div b + 1 \<le> m" by simp
    then have "((a + n) div b + 1) * b \<le> m * b" using assms(2) by (simp add: mult_right_mono)
    with div_bounds(2)[OF assms(2), of "a + n"] m(2) show False by linarith
  qed
  ultimately show "(a + n) div b \<noteq> a div b" by simp
qed

lemma go_div_nonneg:
  "0 \<le> a \<Longrightarrow> a < 2 ^ 63 \<Longrightarrow> 0 < b \<Longrightarrow> go_div a b = Inr (a div b)"
proof -
  assume a: "0 \<le> a" "a < 2 ^ 63" and b: "0 < b"
  have q0: "0 \<le> a div b"
    using a b by (simp add: pos_imp_zdiv_nonneg_iff)
  then have "a div b * 1 \<le> a div b * b"
    using b by (intro mult_left_mono) simp_all
  with div_bounds(1)[OF b, of a] have q1: "a div b \<le> a" by simp
  note q = q0 q1
  have "sgn a * sgn b * (\<bar>a\<bar> div \<bar>b\<bar>) = a div b"
    using a b by (cases "a = 0") simp_all
  moreover have "wrap64 (a div b) = a div b"
    using q a by (simp add: wrap64_id is_int64_def)
  ultimately show ?thesis using b by (simp add: go_div_def)
qed

lemma recycle_loop_quiet: "list_all quiet (recycle_loop env l fis sz)"
  by (induction fis arbitrary: sz) (simp_all add: Let_def quiet_def)

lemma recycleOldLogFiles_effects:
  "\<exists>c. effects (recycleOldLogFiles env l) = effects l @ Readdir (logDir l) # c \<and> list_all quiet c"
  using recycle_loop_quiet
  by (auto simp: recycleOldLogFiles_def Let_def effects_do_effects quiet_def split: option.splits)

lemma redirectToNewFile_effects:
  "\<exists>a nm b. effects (redirectToNewFile env l) = effects l @ a @ RedirectStdoutStderrTo nm # b
     \<and> list_all quiet a \<and> list_all quiet b"
proof -
  let ?base = "logFileBase env (numLogFiles l + 1)"
  let ?a = "if logFileName l \<noteq> [] then [WriteToCStdout (Redirecting ?base)] else []"
  let ?nm = "Join (logDir l) ?base"
  let ?b = "if redirect_stdout_stderr_to env ?nm \<noteq> 0 then [Stderr FailedToRedirect]
            else UpdateLatest ?base # (if alsoLogToStdoutFlag env then [Stdout (Redirecting ?base)] else [])"
  have "effects (redirectToNewFile env l) = effects l @ ?a @ RedirectStdoutStderrTo ?nm # ?b"
    by (simp add: redirectToNewFile_def Let_def effects_do_effects writeToCStdout_def do_effects_def)
  moreover have "list_all quiet ?a" "list_all quiet ?b" by (simp_all add: quiet_def)
  ultimately show ?thesis by blast
qed

lemma redirectToNewFile_logDir: "logDir (redirectToNewFile env l) = logDir l"
  by (simp add: redirectToNewFile_def Let_def writeToCStdout_def do_effects_def)


lemma check_rotation_eq:
  assumes M: "10 \<le> maxLogFileSizeFlag env" "maxLogFileSizeFlag env < 2 ^ 63"
    and bw: "0 \<le> bytesWritten l" "0 \<le> n" "bytesWritten l + n < 2 ^ 63"
  shows "check_rotation env n l =
     Inr (let l1 = l\<lparr>bytesWritten := bytesWritten l + n\<rparr>
          in if (bytesWritten l + n) div (maxLogFileSizeFlag env div 10)
                  \<noteq> bytesWritten l div (maxLogFileSizeFlag env div 10)
             then (let l2 = do_effects [Stat (logFileName l)] l1
                   in case os_Stat env (logFileName l) of
                        None \<Rightarrow> do_effects [Stderr Err] l2
                      | Some sz \<Rightarrow>
                          if maxLogFileSizeFlag env \<le> sz
                          then recycleOldLogFiles env (redirectToNewFile env l2)
                          else l2)
             else l1)"
proof -
  let ?M = "maxLogFileSizeFlag env"
  let ?block = "?M div 10"
  have b0: "0 < ?block" using M(1) by (simp add: pos_imp_zdiv_pos_iff)
  have g1: "go_div ?M 10 = Inr ?block"
    using M by (intro go_div_nonneg) simp_all
  have g2: "go_div (bytesWritten l) ?block = Inr (bytesWritten l div ?block)"
    using bw b0 by (intro go_div_nonneg) simp_all
  have a: "add64 (bytesWritten l) n = bytesWritten l + n"
    using bw by (simp add: add64_def wrap64_id is_int64_def)
  have g3: "go_div (bytesWritten l + n) ?block = Inr ((bytesWritten l + n) div ?block)"
    using bw b0 by (intro go_div_nonneg) simp_all
  show ?thesis
    by (simp add: check_rotation_def g1 g2 g3 a Let_def do_effects_def split: option.splits)
qed

lemma list_ex_quiet: "list_all quiet es \<Longrightarrow> \<not> list_ex is_Stat es \<and> \<not> list_ex is_Redirect es"
  by (induction es) (simp_all add: quiet_def)

lemma check_rotation_effects:
  assumes M: "10 \<le> maxLogFileSizeFlag env" "maxLogFileSizeFlag env < 2 ^ 63"
    and bw: "0 \<le> bytesWritten l" "0 \<le> n" "bytesWritten l + n < 2 ^ 63"
  shows "\<exists>l' es. check_rotation env n l = Inr l' \<and> effects l' = effects l @ es
     \<and> (stat_checked es \<longleftrightarrow>
          (bytesWritten l + n) div (maxLogFileSizeFlag env div 10)
             \<noteq> bytesWritten l div (maxLogFileSizeFlag env div 10))
     \<and> (rotated es \<longleftrightarrow>
          (bytesWritten l + n) div (maxLogFileSizeFlag env div 10)
             \<noteq> bytesWritten l div (maxLogFileSizeFlag env div 10)
          \<and> (\<exists>sz. os_Stat env (logFileName l) = Some sz \<and> maxLogFileSizeFlag env \<le> sz))
     \<and> (rotated es \<longrightarrow>
          (\<exists>a nm b c. es = a @ RedirectStdoutStderrTo nm # b @ Readdir (logDir l) # c))"
proof -
  let ?M = "maxLogFileSizeFlag env"
  let ?cross = "(bytesWritten l + n) div (?M div 10) \<noteq> bytesWritten l div (?M div 10)"
  let ?l1 = "l\<lparr>bytesWritten := bytesWritten l + n\<rparr>"
  let ?l2 = "do_effects [Stat (logFileName l)] ?l1"
  note eq = check_rotation_eq[OF assms]
  show ?thesis
  proof (cases ?cross)
    case False
    then have "check_rotation env n l = Inr ?l1" using eq by (simp add: Let_def)
    moreover have "effects ?l1 = effects l @ []" by simp
    ultimately show ?thesis using False
      by (intro exI[of _ ?l1] exI[of _ "[]"]) (simp add: stat_checked_def rotated_def)
  next
    case True
    show ?thesis
    proof (cases "os_Stat env (logFileName l)")
      case None
      let ?l' = "do_effects [Stderr Err] ?l2"
      have "check_rotation env n l = Inr ?l'" using eq True None by (simp add: Let_def)
      moreover have "effects ?l' = effects l @ [Stat (logFileName l), Stderr Err]"
        by (simp add: effects_do_effects)
      ultimately show ?thesis using True None
        by (intro exI[of _ ?l'] exI[of _ "[Stat (logFileName l), Stderr Err]"])
          (simp add: stat_checked_def rotated_def)
    next
      case (Some sz)
      show ?thesis
      proof (cases "?M \<le> sz")
        case False
        have "check_rotation env n l = Inr ?l2" using eq True Some False by (simp add: Let_def)
        moreover have "effects ?l2 = effects l @ [Stat (logFileName l)]"
          by (simp add: effects_do_effects)
        ultimately show ?thesis using True Some False
          by (intro exI[of _ ?l2] exI[of _ "[Stat (logFileName l)]"])
            (simp add: stat_checked_def rotated_def)
      next
        case big: True
        let ?l3 = "redirectToNewFile env ?l2"
        let ?l' = "recycleOldLogFiles env ?l3"
        have r: "check_rotation env n l = Inr ?l'" using eq True Some big by (simp add: Let_def)
        from redirectToNewFile_effects[of env ?l2] obtain a nm b where
          e3: "effects ?l3 = effects ?l2 @ a @ RedirectStdoutStderrTo nm # b"
          and q: "list_all quiet a" "list_all quiet b" by blast
        from recycleOldLogFiles_effects[of env ?l3] obtain c where
          e4: "effects ?l' = effects ?l3 @ Readdir (logDir ?l3) # c" by blast
        have d: "logDir ?l3 = logDir l"
          by (simp add: redirectToNewFile_logDir do_effects_def)
        let ?es = "(Stat (logFileName l) # a) @ RedirectStdoutStderrTo nm # b @ Readdir (logDir l) # c"
        have e: "effects ?l' = effects l @ ?es"
          using e3 e4 d by (simp add: effects_do_effects)
        have "stat_checked ?es" "rotated ?es" by (simp_all add: stat_checked_def rotated_def)
        with r e True Some big show ?thesis
          by (intro exI[of _ ?l'] exI[of _ ?es]) blast
      qed
    qed
  qed
qed


lemma new_effects_append: "effects l' = effects l @ es \<Longrightarrow> new_effects l l' = es"
  by (simp add: new_effects_def)

lemma quiet_prefix:
  "list_all quiet pre \<Longrightarrow> stat_checked (pre @ es) = stat_checked es"
  "list_all quiet pre \<Longrightarrow> rotated (pre @ es) = rotated es"
  using list_ex_quiet[of pre] by (simp_all add: stat_checked_def rotated_def)

text \<open>
  Claim C7. One iteration of the writer, with a file size limit of at least 10 (so that
  the block \<open>maxFileSize / 10\<close> is positive) and byte counts within \<open>int64\<close>; \<open>d\<close> is
  the data of the iteration. The iteration calls \<open>os.Stat\<close> exactly when it has written
  all of \<open>d\<close> and the bytes written cross a multiple of the block; it rotates exactly
  when, moreover, \<open>os.Stat\<close> reports a size of at least \<open>maxFileSize\<close>; and a rotation
  redirects to the new file first and reads the directory for the recycler afterwards.
  A write that crosses no multiple of the block rotates nothing.
\<close>

theorem rotation_only_at_checkpoints:
  assumes d: "d = (case data l of None \<Rightarrow> logData | Some d0 \<Rightarrow> d0 @ logData)"
    and block: "block = maxLogFileSizeFlag env div 10"
    and M: "10 \<le> maxLogFileSizeFlag env" "maxLogFileSizeFlag env < 2 ^ 63"
    and bw: "0 \<le> bytesWritten l" "bytesWritten l + int (length d) < 2 ^ 63"
  shows "\<exists>l'. writeLog_body env l logData = Inr l'
     \<and> (stat_checked (new_effects l l') \<longleftrightarrow>
          logFileName l \<noteq> [] \<and> chan_buf (lr_logCh l) = []
          \<and> write_to_log env (Data d) = int (length d)
          \<and> (\<exists>m. bytesWritten l < m * block \<and> m * block \<le> bytesWritten l + int (length d)))
     \<and> (rotated (new_effects l l') \<longleftrightarrow>
          logFileName l \<noteq> [] \<and> chan_buf (lr_logCh l) = []
          \<and> write_to_log env (Data d) = int (length d)
          \<and> (\<exists>m. bytesWritten l < m * block \<and> m * block \<le> bytesWritten l + int (length d))
          \<and> (\<exists>sz. os_Stat env (logFileName l) = Some sz \<and> maxLogFileSizeFlag env \<le> sz))
     \<and> (rotated (new_effects l l') \<longrightarrow>
          (\<exists>a nm b c. new_effects l l'
                         = a @ RedirectStdoutStderrTo nm # b @ Readdir (logDir l) # c))"
proof -
  let ?pre0 = "if alsoLogToStdoutFlag env then [Stdout (Data logData)] else []"
  let ?l1 = "if alsoLogToStdoutFlag env then do_effects [Stdout (Data logData)] l else l"
  let ?l2 = "?l1\<lparr>data := Some d\<rparr>"
  let ?n = "write_to_log env (Data d)"
  let ?l3 = "writeToCStdout env (Data d) ?l2"
  let ?cross = "\<exists>m. bytesWritten l < m * block \<and> m * block \<le> bytesWritten l + int (length d)"
  have b0: "0 < block" using M(1) block by (simp add: pos_imp_zdiv_pos_iff)
  have l1: "effects ?l1 = effects l @ ?pre0" "logFileName ?l1 = logFileName l"
    "data ?l1 = data l" "lr_logCh ?l1 = lr_logCh l"
    by (simp_all add: do_effects_def)
  have q0: "list_all quiet ?pre0" by (simp add: quiet_def)
  have body: "writeLog_body env l logData =
      (if logFileName l = [] then Inr ?l1
       else if length (chan_buf (lr_logCh l)) > 0 then Inr ?l2
       else if ?n \<noteq> int (length d)
            then Inr ((do_effects [Stderr (FailedToWriteLog ?n (length d))] ?l3)\<lparr>data := None\<rparr>)
            else (case check_rotation env ?n ?l3 of
                    Inl e \<Rightarrow> Inl e
                  | Inr l4 \<Rightarrow> Inr (l4\<lparr>data := None\<rparr>)))"
    unfolding writeLog_body_def Let_def d using l1(2,3,4)
    by (simp add: do_effects_def)
  consider (nofile) "logFileName l = []"
    | (pending) "logFileName l \<noteq> []" "chan_buf (lr_logCh l) \<noteq> []"
    | (short) "logFileName l \<noteq> []" "chan_buf (lr_logCh l) = []" "?n \<noteq> int (length d)"
    | (written) "logFileName l \<noteq> []" "chan_buf (lr_logCh l) = []" "?n = int (length d)"
    by blast
  then show ?thesis
  proof cases
    case nofile
    then have "writeLog_body env l logData = Inr ?l1" using body by simp
    moreover have "new_effects l ?l1 = ?pre0" by (rule new_effects_append) (rule l1)
    ultimately show ?thesis using nofile q0 list_ex_quiet[OF q0]
      by (intro exI[of _ ?l1]) (simp add: stat_checked_def rotated_def)
  next
    case pending
    then have "writeLog_body env l logData = Inr ?l2" using body by simp
    moreover have "new_effects l ?l2 = ?pre0"
      by (rule new_effects_append) (simp add: do_effects_def)
    ultimately show ?thesis using pending q0 list_ex_quiet[OF q0]
      by (intro exI[of _ ?l2]) (simp add: stat_checked_def rotated_def)
  next
    case short
    let ?l' = "(do_effects [Stderr (FailedToWriteLog ?n (length d))] ?l3)\<lparr>data := None\<rparr>"
    let ?es = "?pre0 @ [WriteToCStdout (Data d), Stderr (FailedToWriteLog ?n (length d))]"
    have "writeLog_body env l logData = Inr ?l'" using body short by simp
    moreover have "new_effects l ?l' = ?es"
      by (rule new_effects_append) (simp add: do_effects_def writeToCStdout_def)
    moreover have "list_all quiet ?es" by (simp add: quiet_def)
    ultimately show ?thesis using short list_ex_quiet[of ?es]
      by (intro exI[of _ ?l']) (simp add: stat_checked_def rotated_def)
  next
    case written
    let ?pre = "?pre0 @ [WriteToCStdout (Data d)]"
    have l3: "effects ?l3 = effects l @ ?pre" "bytesWritten ?l3 = bytesWritten l"
      "logFileName ?l3 = logFileName l" "logDir ?l3 = logDir l"
      by (simp_all add: do_effects_def writeToCStdout_def)
    have qp: "list_all quiet ?pre" by (simp add: quiet_def)
    have n: "?n = int (length d)" by (rule written)
    have b3: "0 \<le> bytesWritten ?l3" "0 \<le> ?n" "bytesWritten ?l3 + ?n < 2 ^ 63"
      using bw n l3(2) by simp_all
    have "\<exists>l4 es. check_rotation env ?n ?l3 = Inr l4 \<and> effects l4 = effects ?l3 @ es
       \<and> (stat_checked es \<longleftrightarrow>
          (bytesWritten l + int (length d)) div block \<noteq> bytesWritten l div block)
       \<and> (rotated es \<longleftrightarrow>
          (bytesWritten l + int (length d)) div block \<noteq> bytesWritten l div block
          \<and> (\<exists>sz. os_Stat env (logFileName l) = Some sz \<and> maxLogFileSizeFlag env \<le> sz))
       \<and> (rotated es \<longrightarrow>
          (\<exists>a nm b c. es = a @ RedirectStdoutStderrTo nm # b @ Readdir (logDir l) # c))"
      using check_rotation_effects[of env ?l3 ?n, OF M b3]
      unfolding l3(2,3,4) n block .
    then obtain l4 es where c: "check_rotation env ?n ?l3 = Inr l4" "effects l4 = effects ?l3 @ es"
      and st: "stat_checked es \<longleftrightarrow>
          (bytesWritten l + int (length d)) div block \<noteq> bytesWritten l div block"
      and ro: "rotated es \<longleftrightarrow>
          (bytesWritten l + int (length d)) div block \<noteq> bytesWritten l div block
          \<and> (\<exists>sz. os_Stat env (logFileName l) = Some sz \<and> maxLogFileSizeFlag env \<le> sz)"
      and ord: "rotated es \<longrightarrow>
          (\<exists>a nm b c. es = a @ RedirectStdoutStderrTo nm # b @ Readdir (logDir l) # c)"
      by blast
    have cr: "(bytesWritten l + int (length d)) div block \<noteq> bytesWritten l div block \<longleftrightarrow> ?cross"
      by (rule crossing_iff) (simp_all add: b0)
    let ?l' = "l4\<lparr>data := None\<rparr>"
    have r: "writeLog_body env l logData = Inr ?l'" using body written c(1) by simp
    have ne: "new_effects l ?l' = ?pre @ es"
      by (rule new_effects_append) (simp add: c(2) l3(1))
    have o: "\<exists>a nm b c. ?pre @ es = a @ RedirectStdoutStderrTo nm # b @ Readdir (logDir l) # c"
      if "rotated es"
    proof -
      from ord that obtain a nm b c where
        "es = a @ RedirectStdoutStderrTo nm # b @ Readdir (logDir l) # c" by blast
      then have "?pre @ es = (?pre @ a) @ RedirectStdoutStderrTo nm # b @ Readdir (logDir l) # c"
        by simp
      then show ?thesis by blast
    qed
    show ?thesis
      apply (intro exI[of _ ?l'])
      unfolding ne quiet_prefix[OF qp]
      using r st ro o written cr by auto
  qed
qed


theorem rotation_only_at_checkpoints_witness:
  "''0123456789'' = (case data (redirector_at 95) of None \<Rightarrow> ''0123456789'' | Some d0 \<Rightarrow> d0 @ ''0123456789'')
   \<and> (100 :: int) = maxLogFileSizeFlag env_rotate div 10
   \<and> 10 \<le> maxLogFileSizeFlag env_rotate \<and> maxLogFileSizeFlag env_rotate < 2 ^ 63
   \<and> 0 \<le> bytesWritten (redirector_at 95)
   \<and> bytesWritten (redirector_at 95) + int (length ''0123456789'') < 2 ^ 63
   \<and> (\<exists>l'. writeLog_body env_rotate (redirector_at 95) ''0123456789'' = Inr l'
         \<and> stat_checked (new_effects (redirector_at 95) l')
         \<and> rotated (new_effects (redirector_at 95) l'))
   \<and> (\<exists>l'. writeLog_body env_rotate (redirector_at 10) ''0123456789'' = Inr l'
         \<and> \<not> stat_checked (new_effects (redirector_at 10) l')
         \<and> \<not> rotated (new_effects (redirector_at 10) l'))"
proof -
  have f: "data (redirector_at bw) = None" "bytesWritten (redirector_at bw) = bw"
    "logFileName (redirector_at bw) \<noteq> []" "chan_buf (lr_logCh (redirector_at bw)) = []"
    "maxLogFileSizeFlag env_rotate = 1000"
    "os_Stat env_rotate f = Some 1200"
    "write_to_log env_rotate (Data x) = int (length x)" for bw f x
    by (simp_all add: redirector_at_def NewLogRedirector_def redirectToNewFile_def env_rotate_def
        env0_def Let_def do_effects_def make_chan_def Join_def)
  have h: "''0123456789'' = (case data (redirector_at bw) of None \<Rightarrow> ''0123456789'' | Some d0 \<Rightarrow> d0 @ ''0123456789'')"
    "(100 :: int) = maxLogFileSizeFlag env_rotate div 10"
    "10 \<le> maxLogFileSizeFlag env_rotate" "maxLogFileSizeFlag env_rotate < 2 ^ 63" for bw
    by (simp_all add: f)
  have b95: "0 \<le> bytesWritten (redirector_at 95)"
    "bytesWritten (redirector_at 95) + int (length ''0123456789'') < 2 ^ 63"
    by (simp_all add: f)
  have b10: "0 \<le> bytesWritten (redirector_at 10)"
    "bytesWritten (redirector_at 10) + int (length ''0123456789'') < 2 ^ 63"
    by (simp_all add: f)
  have w: "logFileName (redirector_at bw) \<noteq> []" "chan_buf (lr_logCh (redirector_at bw)) = []"
    "write_to_log env_rotate (Data ''0123456789'') = int (length ''0123456789'')"
    "\<exists>sz. os_Stat env_rotate (logFileName (redirector_at bw)) = Some sz
        \<and> maxLogFileSizeFlag env_rotate \<le> sz" for bw
    by (simp_all add: f)
  have c95: "\<exists>m. bytesWritten (redirector_at 95) < m * 100
      \<and> m * 100 \<le> bytesWritten (redirector_at 95) + int (length ''0123456789'')"
    by (rule exI[of _ 1]) (simp add: f)
  have c10: "\<not> (\<exists>m. bytesWritten (redirector_at 10) < m * 100
      \<and> m * 100 \<le> bytesWritten (redirector_at 10) + int (length ''0123456789''))"
  proof
    assume "\<exists>m. bytesWritten (redirector_at 10) < m * 100
      \<and> m * 100 \<le> bytesWritten (redirector_at 10) + int (length ''0123456789'')"
    then obtain m :: int where "10 < m * 100" "m * 100 \<le> 20" by (auto simp: f)
    then show False by presburger
  qed
  from rotation_only_at_checkpoints[OF h(1)[of 95] h(2) h(3) h(4) b95] c95 w(1)[of 95] w(2)[of 95] w(3) w(4)[of 95]
  have A: "\<exists>l'. writeLog_body env_rotate (redirector_at 95) ''0123456789'' = Inr l'
         \<and> stat_checked (new_effects (redirector_at 95) l')
         \<and> rotated (new_effects (redirector_at 95) l')"
    by blast
  from rotation_only_at_checkpoints[OF h(1)[of 10] h(2) h(3) h(4) b10] c10
  have B: "\<exists>l'. writeLog_body env_rotate (redirector_at 10) ''0123456789'' = Inr l'
         \<and> \<not> stat_checked (new_effects (redirector_at 10) l')
         \<and> \<not> rotated (new_effects (redirector_at 10) l')"
    by blast
  from A B h(1)[of 95] h(2) h(3) h(4) b95 show ?thesis by blast
qed


subsection \<open>Recycling\<close>




lemma removes_append: "removes (xs @ ys) = removes xs @ removes ys"
  by (induction xs rule: removes.induct) simp_all







end
